theory Spec2Isabelle
  imports Complex_Main
begin

section \<open>Data model\<close>

text \<open>
  The game is one React component, \<^verbatim>\<open>FlappySoupGame\<close>. Its numbers are JavaScript
  numbers, that is IEEE doubles. They are modelled as the reals they denote (the frame
  counter and the scores, which only ever hold small non-negative integers, as naturals),
  and the rounding of an operation to the nearest double is written out where a property
  depends on the last bit of the result: in the spawner, whose heights are compared with
  the end points of an interval and added up to an exact total. Everywhere else the
  operations are taken exactly: on the states the game reaches, the values its
  comparisons decide on lie away from the thresholds by many orders of magnitude more
  than the rounding errors. Field names are the source's; the fields of a bubble
  carry the prefix \<^verbatim>\<open>bubble_\<close> because a bubble has fields \<^verbatim>\<open>x\<close> and \<^verbatim>\<open>y\<close> of
  its own.
\<close>

record GameObject =
  x :: real
  y :: real
  width :: real
  height :: real

record Pipe = GameObject +
  passed :: bool

record Player = GameObject +
  velocity :: real

record Bubble =
  bubble_x :: real
  bubble_y :: real
  bubble_r :: real
  bubble_vy :: real
  bubble_wobble :: real

datatype GameState = menu | playing | gameOver

text \<open>The object held by \<^verbatim>\<open>gameDataRef.current\<close>.\<close>

record GameData =
  player :: Player
  pipes :: "Pipe list"
  bubbles :: "Bubble list"
  frameCount :: nat

text \<open>
  The component: its three pieces of React state that the simulation touches, and the
  game data. The selected skin only changes what is drawn and is left out.
\<close>

record Component =
  gameState :: GameState
  score :: nat
  highScore :: nat
  gameData :: GameData

text \<open>
  One record of the values \<^verbatim>\<open>Math.random()\<close> returns during one frame: the draw
  for the fork height and the four draws for a new bubble. \<^verbatim>\<open>Math.random()\<close>
  returns a number in \<open>[0, 1)\<close>.
\<close>

record Rnd =
  rndPipe :: real
  rndBubbleX :: real
  rndBubbleR :: real
  rndBubbleVy :: real
  rndBubbleWobble :: real

definition unitInterval :: "real \<Rightarrow> bool" where
  "unitInterval u = (0 \<le> u \<and> u < 1)"

definition validRnd :: "Rnd \<Rightarrow> bool" where
  "validRnd rn =
     (unitInterval (rndPipe rn) \<and> unitInterval (rndBubbleX rn) \<and> unitInterval (rndBubbleR rn) \<and>
      unitInterval (rndBubbleVy rn) \<and> unitInterval (rndBubbleWobble rn))"

section \<open>Constants\<close>

definition GAME_WIDTH :: real where "GAME_WIDTH = 800"
definition GAME_HEIGHT :: real where "GAME_HEIGHT = 600"
definition PLAYER_SIZE :: real where "PLAYER_SIZE = 40"
definition GRAVITY :: real where "GRAVITY = 0.5"
definition JUMP_FORCE :: real where "JUMP_FORCE = - 10"
definition MAX_FALL_SPEED :: real where "MAX_FALL_SPEED = 12"
definition PIPE_WIDTH :: real where "PIPE_WIDTH = 80"
definition PIPE_GAP :: real where "PIPE_GAP = 280"
definition SPAWN_INTERVAL :: nat where "SPAWN_INTERVAL = 140"
definition GAME_SPEED :: real where "GAME_SPEED = 3.9"
definition SOUP_BASE_Y :: real where "SOUP_BASE_Y = GAME_HEIGHT - 60"

section \<open>JavaScript numbers\<close>

text \<open>
  Rounding a real to the nearest double, ties to the even significand: the doubles
  around \<open>r\<close> are the integer multiples of \<open>ulp r\<close>, a power of two fixed by the binary
  exponent of \<open>r\<close> (not below that of the subnormal numbers). Overflow does not occur for
  the magnitudes of this game, all below 1000.
\<close>

definition roundEven :: "real \<Rightarrow> int" where
  "roundEven r =
     (let f = \<lfloor>r\<rfloor>; d = r - of_int f
      in if d < 1 / 2 then f else if 1 / 2 < d then f + 1 else if even f then f else f + 1)"

definition exponent :: "real \<Rightarrow> int" where
  "exponent r = max \<lfloor>log 2 \<bar>r\<bar>\<rfloor> (- 1022)"

definition ulp :: "real \<Rightarrow> real" where
  "ulp r = 2 powr real_of_int (exponent r - 52)"

definition roundDouble :: "real \<Rightarrow> real" where
  "roundDouble r = (if r = 0 then 0 else real_of_int (roundEven (r / ulp r)) * ulp r)"

text \<open>The operators \<^verbatim>\<open>+\<close>, \<^verbatim>\<open>-\<close> and \<^verbatim>\<open>*\<close> on numbers.\<close>

definition numAdd :: "real \<Rightarrow> real \<Rightarrow> real" where
  "numAdd a b = roundDouble (a + b)"

definition numSub :: "real \<Rightarrow> real \<Rightarrow> real" where
  "numSub a b = roundDouble (a - b)"

definition numMul :: "real \<Rightarrow> real \<Rightarrow> real" where
  "numMul a b = roundDouble (a * b)"

section \<open>Session state machine\<close>

definition freshGameData :: GameData where
  "freshGameData =
     \<lparr>player = \<lparr>x = 150, y = GAME_HEIGHT / 2, width = PLAYER_SIZE, height = PLAYER_SIZE,
                 velocity = 0\<rparr>,
      pipes = [], bubbles = [], frameCount = 0\<rparr>"

text \<open>The component as it is mounted: the initial values of the \<^verbatim>\<open>useState\<close> and \<^verbatim>\<open>useRef\<close> calls.\<close>

definition initialComponent :: Component where
  "initialComponent = \<lparr>gameState = menu, score = 0, highScore = 0, gameData = freshGameData\<rparr>"

definition resetGame :: "Component \<Rightarrow> Component" where
  "resetGame s = s\<lparr>gameData := freshGameData, score := 0\<rparr>"

definition jump :: "Component \<Rightarrow> Component" where
  "jump s =
     (if gameState s = playing
      then s\<lparr>gameData := (gameData s)\<lparr>player := (player (gameData s))\<lparr>velocity := JUMP_FORCE\<rparr>\<rparr>\<rparr>
      else s)"

definition startGame :: "Component \<Rightarrow> Component" where
  "startGame s = (resetGame s)\<lparr>gameState := playing\<rparr>"

definition toMenu :: "Component \<Rightarrow> Component" where
  "toMenu s = s\<lparr>gameState := menu\<rparr>"

text \<open>
  \<^verbatim>\<open>endGame\<close> is a callback that closes over \<^verbatim>\<open>score\<close>: the value it passes to
  \<^verbatim>\<open>Math.max\<close> is the score of the render that created the callback, here the
  argument \<open>capturedScore\<close>, not the score the queued updaters will produce.
\<close>

definition endGame :: "nat \<Rightarrow> Component \<Rightarrow> Component" where
  "endGame capturedScore s = s\<lparr>gameState := gameOver, highScore := max (highScore s) capturedScore\<rparr>"

section \<open>Soup surface\<close>

definition soupSurfaceYAt :: "real \<Rightarrow> real \<Rightarrow> real" where
  "soupSurfaceYAt px frame =
     (let a1 = 10; a2 = 6; k1 = 0.015; k2 = 0.035; s1 = 0.06; s2 = 0.04
      in SOUP_BASE_Y + sin (px * k1 + frame * s1) * a1 + sin (px * k2 - frame * s2) * a2)"

section \<open>The game loop\<close>

text \<open>Update player: gravity, the clamp on the falling speed, then the move.\<close>

definition updatePlayer :: "Player \<Rightarrow> Player" where
  "updatePlayer pl =
     (let v1 = velocity pl + GRAVITY;
          v2 = (if v1 > MAX_FALL_SPEED then MAX_FALL_SPEED else v1)
      in pl\<lparr>velocity := v2, y := y pl + v2\<rparr>)"

text \<open>
  Generate forks: on a spawn frame two rectangles are pushed, the top one first. The
  height and the fields computed from it are rounded operation by operation.
\<close>

definition generateForks :: "real \<Rightarrow> nat \<Rightarrow> Pipe list \<Rightarrow> Pipe list" where
  "generateForks rand fc ps =
     (if fc mod SPAWN_INTERVAL = 0
      then (let pipeHeight =
                  numAdd (numMul rand (numSub (numSub GAME_HEIGHT PIPE_GAP) 200)) 100
            in ps @ [\<lparr>x = GAME_WIDTH, y = 0, width = PIPE_WIDTH, height = pipeHeight,
                       passed = False\<rparr>,
                     \<lparr>x = GAME_WIDTH, y = numAdd pipeHeight PIPE_GAP, width = PIPE_WIDTH,
                       height = numSub (numSub GAME_HEIGHT pipeHeight) PIPE_GAP,
                       passed = False\<rparr>])
      else ps)"

text \<open>
  Update forks: the callback of \<^verbatim>\<open>game.pipes.filter\<close>. It moves the fork, scores it
  when it is an unpassed top fork whose right edge is left of the player, and answers
  whether the fork is kept. The model returns the fork as the callback leaves it, the
  number of \<^verbatim>\<open>setScore\<close> calls it made and the answer.
\<close>

definition forkCallback :: "real \<Rightarrow> Pipe \<Rightarrow> Pipe \<times> nat \<times> bool" where
  "forkCallback playerX p =
     (let p1 = p\<lparr>x := x p - GAME_SPEED\<rparr>;
          hit = (\<not> passed p1 \<and> y p1 = 0 \<and> x p1 + width p1 < playerX);
          p2 = (if hit then p1\<lparr>passed := True\<rparr> else p1)
      in (p2, (if hit then 1 else 0), x p2 + width p2 > 0))"

definition updateForks :: "real \<Rightarrow> Pipe list \<Rightarrow> Pipe list \<times> nat" where
  "updateForks playerX ps =
     (let rs = map (forkCallback playerX) ps
      in (map fst (filter (\<lambda>t. snd (snd t)) rs), sum_list (map (\<lambda>t. fst (snd t)) rs)))"

text \<open>Update soup bubbles: one may be pushed, then the filter moves and retires them.\<close>

definition spawnBubble :: "Rnd \<Rightarrow> nat \<Rightarrow> Bubble list \<Rightarrow> Bubble list" where
  "spawnBubble rn fc bs =
     (if fc mod 12 = 0 \<and> length bs < 40
      then bs @ [\<lparr>bubble_x = rndBubbleX rn * GAME_WIDTH, bubble_y = GAME_HEIGHT - 6,
                  bubble_r = 2 + rndBubbleR rn * 5, bubble_vy = - 0.6 - rndBubbleVy rn * 0.9,
                  bubble_wobble = rndBubbleWobble rn * pi * 2\<rparr>]
      else bs)"

definition bubbleCallback :: "nat \<Rightarrow> Bubble \<Rightarrow> Bubble \<times> bool" where
  "bubbleCallback fc b =
     (let b1 = b\<lparr>bubble_y := bubble_y b + bubble_vy b\<rparr>;
          b2 = b1\<lparr>bubble_x := bubble_x b1 + sin (real fc * 0.12 + bubble_wobble b1) * 0.25\<rparr>;
          surface = soupSurfaceYAt (bubble_x b2) (real fc)
      in (b2, bubble_y b2 + bubble_r b2 < surface - 2))"

definition updateBubbles :: "Rnd \<Rightarrow> nat \<Rightarrow> Bubble list \<Rightarrow> Bubble list" where
  "updateBubbles rn fc bs =
     map fst (filter snd (map (bubbleCallback fc) (spawnBubble rn fc bs)))"

text \<open>Collision detection: ceiling, soup at the player's centre, then the loop over the forks.\<close>

definition overlaps :: "Player \<Rightarrow> Pipe \<Rightarrow> bool" where
  "overlaps pl p =
     (x pl < x p + width p \<and> x pl + width pl > x p \<and>
      y pl < y p + height p \<and> y pl + height pl > y p)"

fun forkCollision :: "Player \<Rightarrow> Pipe list \<Rightarrow> bool" where
  "forkCollision pl [] = False"
| "forkCollision pl (p # ps) = (if overlaps pl p then True else forkCollision pl ps)"

definition soupCollision :: "Player \<Rightarrow> nat \<Rightarrow> bool" where
  "soupCollision pl fc =
     (let playerCenterX = x pl + width pl / 2;
          soupSurfaceHere = soupSurfaceYAt playerCenterX (real fc)
      in y pl + height pl > soupSurfaceHere)"

definition collisionDetection :: "GameData \<Rightarrow> bool" where
  "collisionDetection g =
     (if y (player g) < 0 then True
      else if soupCollision (player g) (frameCount g) then True
      else forkCollision (player g) (pipes g))"

text \<open>
  Everything \<^verbatim>\<open>gameLoop\<close> does before the collision detection: the game data it
  leaves and the number of \<^verbatim>\<open>setScore\<close> calls.
\<close>

definition advance :: "Rnd \<Rightarrow> GameData \<Rightarrow> GameData \<times> nat" where
  "advance rn g =
     (let fc = frameCount g + 1;
          pl = updatePlayer (player g);
          ps1 = generateForks (rndPipe rn) fc (pipes g);
          (ps2, inc) = updateForks (x pl) ps1;
          bs = updateBubbles rn fc (bubbles g)
      in (\<lparr>player = pl, pipes = ps2, bubbles = bs, frameCount = fc\<rparr>, inc))"

text \<open>
  One frame. The effect that owns the loop depends on \<^verbatim>\<open>endGame\<close>, which depends on
  \<^verbatim>\<open>score\<close>, so after every render the loop runs with a callback that holds the
  rendered score: the score at the start of the frame. The increments this frame queues
  reach \<open>score\<close> but not the value \<^verbatim>\<open>endGame\<close> compares with.
\<close>

definition gameLoop :: "Rnd \<Rightarrow> Component \<Rightarrow> Component" where
  "gameLoop rn s =
     (let (g, inc) = advance rn (gameData s);
          s1 = s\<lparr>gameData := g, score := score s + inc\<rparr>
      in if collisionDetection g then endGame (score s) s1 else s1)"

section \<open>Events\<close>

text \<open>
  What drives the component: the space key, a click on the canvas, the two buttons of the
  overlays (rendered only in the phases that show them) and the animation frame, which is
  scheduled only while the phase is \<open>playing\<close>.
\<close>

datatype Event = Space | Click | StartButton | ToMenuButton | Frame Rnd

fun handle :: "Component \<Rightarrow> Event \<Rightarrow> Component" where
  "handle s Space =
     (if gameState s = menu \<or> gameState s = gameOver then startGame s
      else if gameState s = playing then jump s else s)"
| "handle s Click = (if gameState s = playing then jump s else startGame s)"
| "handle s StartButton =
     (if gameState s = menu \<or> gameState s = gameOver then startGame s else s)"
| "handle s ToMenuButton = (if gameState s = gameOver then toMenu s else s)"
| "handle s (Frame rn) = (if gameState s = playing then gameLoop rn s else s)"

definition run :: "Component \<Rightarrow> Event list \<Rightarrow> Component" where
  "run s es = foldl handle s es"

fun validEvent :: "Event \<Rightarrow> bool" where
  "validEvent (Frame rn) = validRnd rn"
| "validEvent _ = True"

section \<open>Sample inputs\<close>

text \<open>The draws of a frame in which every call of \<^verbatim>\<open>Math.random()\<close> returns 0.\<close>

definition rnd0 :: Rnd where
  "rnd0 = \<lparr>rndPipe = 0, rndBubbleX = 0, rndBubbleR = 0, rndBubbleVy = 0, rndBubbleWobble = 0\<rparr>"

text \<open>The largest double below 1, a value \<^verbatim>\<open>Math.random()\<close> may return.\<close>

definition largestDraw :: real where
  "largestDraw = 1 - 1 / 2 ^ 53"

text \<open>
  A game in its frame 364 whose first pair of forks, spawned in frame 140, is about to
  leave the world on the left; the second pair was spawned in frame 280.
\<close>

definition leavingFork :: Pipe where
  "leavingFork = \<lparr>x = - 77.5, y = 0, width = 80, height = 100, passed = True\<rparr>"

definition leavingData :: GameData where
  "leavingData =
     \<lparr>player = \<lparr>x = 150, y = 300, width = 40, height = 40, velocity = 0\<rparr>,
      pipes = [leavingFork,
               \<lparr>x = - 77.5, y = 380, width = 80, height = 220, passed = False\<rparr>,
               \<lparr>x = 468.5, y = 0, width = 80, height = 160, passed = False\<rparr>,
               \<lparr>x = 468.5, y = 440, width = 80, height = 160, passed = False\<rparr>],
      bubbles = [], frameCount = 364\<rparr>"

section \<open>Derived notions\<close>

text \<open>
  The list of forks read as consecutive pairs, each with one \<open>x\<close> and one width.
\<close>

fun samePairs :: "Pipe list \<Rightarrow> bool" where
  "samePairs [] = True"
| "samePairs [p] = False"
| "samePairs (p # q # ps) = (x p = x q \<and> width p = width q \<and> samePairs ps)"


text \<open>The pair the spawner pushes when \<^verbatim>\<open>Math.random()\<close> returns one half.\<close>

definition topFork :: Pipe where
  "topFork = \<lparr>x = 800, y = 0, width = 80, height = 160, passed = False\<rparr>"

definition bottomFork :: Pipe where
  "bottomFork = \<lparr>x = 800, y = 440, width = 80, height = 160, passed = False\<rparr>"

text \<open>
  A session that is started and then only sees frames, no jump: the state after \<open>k\<close>
  frames, for the draws \<open>rnds\<close>. The frames after the end of the session change nothing.
\<close>

fun idleFrames :: "(nat \<Rightarrow> Rnd) \<Rightarrow> Component \<Rightarrow> nat \<Rightarrow> Component" where
  "idleFrames rnds s 0 = startGame s"
| "idleFrames rnds s (Suc k) = handle (idleFrames rnds s k) (Frame (rnds k))"

text \<open>
  The free fall of that session in closed form: the velocity grows by 0.5 a frame up to
  12, which it reaches in frame 24.
\<close>

definition idleVelocity :: "nat \<Rightarrow> real" where
  "idleVelocity k = min (real k / 2) 12"

definition idleY :: "nat \<Rightarrow> real" where
  "idleY k = (if k \<le> 24 then 300 + real k * (real k + 1) / 4 else 162 + 12 * real k)"

definition idlePlayer :: "nat \<Rightarrow> Player" where
  "idlePlayer k = \<lparr>x = 150, y = idleY k, width = 40, height = 40, velocity = idleVelocity k\<rparr>"

text \<open>What an idle session looks like while it is still being played.\<close>

definition idleState :: "Component \<Rightarrow> nat \<Rightarrow> bool" where
  "idleState s k =
     (score s = 0 \<and> frameCount (gameData s) = k \<and> pipes (gameData s) = [] \<and>
      player (gameData s) = idlePlayer k)"

text \<open>
  What holds between the frames of a session. A top fork carries its age: it has been
  moved \<open>n\<close> times since it was pushed at \<open>x = 800\<close> in a frame that is a multiple of 140,
  and it is flagged once its right edge is left of the player. A bottom fork sits under
  its top fork. The count \<open>c\<close> is the number of the coming frame.
\<close>

definition goodTop :: "nat \<Rightarrow> Pipe \<Rightarrow> bool" where
  "goodTop c p =
     (y p = 0 \<and> width p = PIPE_WIDTH \<and> 100 \<le> height p \<and> height p \<le> 220 \<and>
      (\<exists>n \<le> c. \<exists>j \<le> c. x p = GAME_WIDTH - GAME_SPEED * real n \<and> c = n + SPAWN_INTERVAL * j) \<and>
      (passed p \<or> 150 \<le> x p + width p))"

definition goodBottom :: "Pipe \<Rightarrow> Pipe \<Rightarrow> bool" where
  "goodBottom p q =
     (x q = x p \<and> width q = PIPE_WIDTH \<and> y q = numAdd (height p) PIPE_GAP \<and>
      height q = numSub (numSub GAME_HEIGHT (height p)) PIPE_GAP)"

fun goodPairs :: "nat \<Rightarrow> Pipe list \<Rightarrow> bool" where
  "goodPairs c [] = True"
| "goodPairs c [p] = False"
| "goodPairs c (p # q # ps) = (goodTop c p \<and> goodBottom p q \<and> goodPairs c ps)"

text \<open>
  The player has just survived a collision detection (or the session has just started),
  and the forks are well-formed pairs.
\<close>

definition sessionInv :: "Component \<Rightarrow> bool" where
  "sessionInv s =
     (let g = gameData s; pl = player g
      in x pl = 150 \<and> width pl = PLAYER_SIZE \<and> height pl = PLAYER_SIZE \<and>
         JUMP_FORCE \<le> velocity pl \<and> 0 \<le> y pl \<and> y pl + height pl \<le> 556 \<and>
         \<not> forkCollision pl (pipes g) \<and> goodPairs (frameCount g + 1) (pipes g))"

text \<open>
  A session: from a playing state the events keep the game playing until the last one,
  which ends it. Every frame's draws are in \<open>[0, 1)\<close>.
\<close>

fun sessionEnds :: "Component \<Rightarrow> Event list \<Rightarrow> bool" where
  "sessionEnds s [] = False"
| "sessionEnds s [e] = (gameState s = playing \<and> validEvent e \<and> gameState (handle s e) = gameOver)"
| "sessionEnds s (e # e' # es) =
     (gameState s = playing \<and> validEvent e \<and> sessionEnds (handle s e) (e' # es))"

text \<open>
  A session in which the player flaps before every frame and hits the ceiling in frame 32.
\<close>

definition flapSession :: "Event list" where
  "flapSession =
     [Space, Frame rnd0, Space, Frame rnd0, Space, Frame rnd0, Space, Frame rnd0,
      Space, Frame rnd0, Space, Frame rnd0, Space, Frame rnd0, Space, Frame rnd0,
      Space, Frame rnd0, Space, Frame rnd0, Space, Frame rnd0, Space, Frame rnd0,
      Space, Frame rnd0, Space, Frame rnd0, Space, Frame rnd0, Space, Frame rnd0,
      Space, Frame rnd0, Space, Frame rnd0, Space, Frame rnd0, Space, Frame rnd0,
      Space, Frame rnd0, Space, Frame rnd0, Space, Frame rnd0, Space, Frame rnd0,
      Space, Frame rnd0, Space, Frame rnd0, Space, Frame rnd0, Space, Frame rnd0,
      Space, Frame rnd0, Space, Frame rnd0, Space, Frame rnd0, Space, Frame rnd0]"

text \<open>
  Playing on: the state the events lead to when every one of them is handled in a playing
  state and leaves the game playing, and nothing otherwise.
\<close>

fun playOn :: "Component \<Rightarrow> Event list \<Rightarrow> Component option" where
  "playOn s [] = (if gameState s = playing then Some s else None)"
| "playOn s (e # es) =
     (if gameState s = playing \<and> validEvent e then playOn (handle s e) es else None)"

text \<open>
  A session that scores: the player flaps once every 39 frames, which brings it back to
  \<open>y = 300\<close> each time, passes the first pair of forks in frame 327, and from frame 352
  on flaps before every frame until it hits the ceiling in frame 383. Every draw is 0, so
  the gap of each pair is from 100 to 380.
\<close>

definition glideBlock :: "Event list" where
  "glideBlock = Space # replicate 39 (Frame rnd0)"

definition scoringPrefix :: "Event list" where
  "scoringPrefix = concat (replicate 9 glideBlock) @ butlast flapSession"

definition scoringSession :: "Event list" where
  "scoringSession = scoringPrefix @ [Frame rnd0]"

text \<open>
  Three sessions in a row from the mounted component: the scoring one, then two that end
  at the ceiling without a score.
\<close>

definition afterFirst :: Component where
  "afterFirst = run (startGame initialComponent) scoringSession"

definition afterSecond :: Component where
  "afterSecond = run (startGame afterFirst) flapSession"

definition afterThird :: Component where
  "afterThird = run (startGame afterSecond) flapSession"

section \<open>Rounding to a double\<close>

lemmas game_consts =
  GAME_WIDTH_def GAME_HEIGHT_def PLAYER_SIZE_def GRAVITY_def JUMP_FORCE_def MAX_FALL_SPEED_def
  PIPE_WIDTH_def PIPE_GAP_def SPAWN_INTERVAL_def GAME_SPEED_def SOUP_BASE_Y_def

lemma roundEven_of_int [simp]: "roundEven (of_int k) = k"
  by (simp add: roundEven_def)

lemma roundEven_le: "r \<le> of_int k \<Longrightarrow> roundEven r \<le> k"
proof -
  assume a: "r \<le> of_int k"
  show ?thesis
  proof (cases "r = of_int k")
    case True
    then show ?thesis by simp
  next
    case False
    with a have "r < of_int k" by simp
    then have "\<lfloor>r\<rfloor> < k" by (simp add: floor_less_iff)
    then show ?thesis
      by (auto simp add: roundEven_def Let_def)
  qed
qed

lemma roundEven_ge: "of_int k \<le> r \<Longrightarrow> k \<le> roundEven r"
proof -
  assume "of_int k \<le> r"
  then have "k \<le> \<lfloor>r\<rfloor>" by (simp add: le_floor_iff)
  then show ?thesis
    by (auto simp add: roundEven_def Let_def)
qed

lemma roundEven_add_even:
  assumes "even k"
  shows "roundEven (r + of_int k) = roundEven r + k"
  using assms by (simp add: roundEven_def Let_def)

lemma roundEven_minus: "roundEven (- r) = - roundEven r"
proof (cases "r = of_int \<lfloor>r\<rfloor>")
  case True
  then have "roundEven (- r) = roundEven (of_int (- \<lfloor>r\<rfloor>))"
    by simp
  also have "\<dots> = - roundEven (of_int \<lfloor>r\<rfloor>)" by (simp only: roundEven_of_int)
  finally show ?thesis using True by simp
next
  case False
  then have f: "\<lfloor>- r\<rfloor> = - \<lfloor>r\<rfloor> - 1"
    by (simp add: floor_minus ceiling_altdef)
  have d: "0 \<le> r - of_int \<lfloor>r\<rfloor>" "r - of_int \<lfloor>r\<rfloor> < 1"
    by linarith+
  show ?thesis
    unfolding roundEven_def Let_def f
    using d False by (auto simp add: algebra_simps)
qed


lemma exponent_le:
  assumes "0 < r" and "r < 2 ^ Suc m"
  shows "exponent r \<le> int m"
proof -
  have "log 2 r < log 2 (2 ^ Suc m)"
    using assms by (intro log_less) simp_all
  also have "\<dots> = real (Suc m) * log 2 2"
    by (rule log_nat_power) simp
  also have "\<dots> = real (Suc m)"
    by simp
  finally have "\<lfloor>log 2 r\<rfloor> < int (Suc m)"
    by (simp add: floor_less_iff)
  then show ?thesis
    using assms(1) by (simp add: exponent_def)
qed

lemma exponent_eq:
  assumes "2 ^ m \<le> r" and "r < 2 ^ Suc m"
  shows "exponent r = int m"
proof -
  have pos: "0 < r"
    using assms(1) by (rule less_le_trans [rotated]) simp
  have a: "2 powr real_of_int (int m) = 2 ^ m"
    using powr_realpow [of 2 m] by simp
  have "real_of_int (int m + 1) = real (Suc m)"
    by simp
  then have b: "2 powr real_of_int (int m + 1) = 2 ^ Suc m"
    using powr_realpow [of 2 "Suc m"] by (simp only:)
  have "2 powr real_of_int (int m) \<le> r \<and> r < 2 powr real_of_int (int m + 1)"
    unfolding a b using assms by simp
  then have "\<lfloor>log 2 r\<rfloor> = int m"
    using pos by (simp add: floor_log_eq_powr_iff)
  then show ?thesis
    using pos by (simp add: exponent_def)
qed

lemma ulp_pos: "0 < ulp r"
  by (simp add: ulp_def)

text \<open>Below \<open>2 ^ (m + 1)\<close> the spacing of the doubles divides \<open>2 ^ (m - 52)\<close>.\<close>

lemma ulp_divides:
  assumes "0 < r" and "r < 2 ^ Suc m" and "m \<le> 52"
  shows "\<exists>j. ulp r * (2 ^ (52 - m) * 2 ^ j) = 1"
proof -
  define j where "j = nat (int m - exponent r)"
  have e: "exponent r \<le> int m"
    using assms(1,2) by (rule exponent_le)
  have "(2::real) powr real (52 - m + j) = 2 ^ (52 - m + j)"
    by (rule powr_realpow) simp
  then have "(2::real) ^ (52 - m) * 2 ^ j = 2 powr real (52 - m + j)"
    by (simp only: power_add)
  also have "real (52 - m + j) = real_of_int (52 - exponent r)"
    using e assms(3) by (simp add: j_def)
  finally have "ulp r * (2 ^ (52 - m) * 2 ^ j) =
      2 powr real_of_int (exponent r - 52) * 2 powr real_of_int (52 - exponent r)"
    by (simp only: ulp_def)
  also have "\<dots> = 2 powr (real_of_int (exponent r - 52) + real_of_int (52 - exponent r))"
    by (simp only: powr_add)
  also have "\<dots> = 1"
    by simp
  finally show ?thesis by blast
qed

lemma ulp_eq:
  assumes "2 ^ m \<le> r" and "r < 2 ^ Suc m" and "m \<le> 52"
  shows "ulp r = 1 / 2 ^ (52 - m)"
proof -
  have "ulp r = 2 powr (- real (52 - m))"
    using assms(3) by (simp add: ulp_def exponent_eq [OF assms(1,2)])
  then show ?thesis
    by (simp add: powr_minus_divide powr_realpow)
qed

lemma roundDouble_le:
  assumes "0 < r" and "r \<le> d" and "r < 2 ^ Suc m" and "m \<le> 52"
    and "d * 2 ^ (52 - m) = real_of_int k"
  shows "roundDouble r \<le> d"
proof -
  from ulp_divides [OF assms(1,3,4)] obtain j where j: "ulp r * (2 ^ (52 - m) * 2 ^ j) = 1"
    by auto
  have u: "0 < ulp r" by (rule ulp_pos)
  have inv: "1 / ulp r = 2 ^ (52 - m) * 2 ^ j"
    using j u by (simp add: field_simps)
  have "d / ulp r = d * (1 / ulp r)" by simp
  also have "\<dots> = real_of_int (k * 2 ^ j)"
    unfolding inv using assms(5) by (simp add: algebra_simps)
  finally have dk: "d / ulp r = real_of_int (k * 2 ^ j)" .
  have "r / ulp r \<le> d / ulp r"
    using assms(2) u by (simp add: divide_right_mono)
  then have "roundEven (r / ulp r) \<le> k * 2 ^ j"
    unfolding dk by (rule roundEven_le)
  then have "real_of_int (roundEven (r / ulp r)) \<le> real_of_int (k * 2 ^ j)"
    by (simp only: of_int_le_iff)
  then have "real_of_int (roundEven (r / ulp r)) \<le> d / ulp r"
    by (simp only: dk)
  then have "real_of_int (roundEven (r / ulp r)) * ulp r \<le> d"
    using u by (simp add: field_simps)
  then show ?thesis
    using assms(1) by (simp add: roundDouble_def)
qed

lemma roundDouble_ge:
  assumes "0 < r" and "d \<le> r" and "r < 2 ^ Suc m" and "m \<le> 52"
    and "d * 2 ^ (52 - m) = real_of_int k"
  shows "d \<le> roundDouble r"
proof -
  from ulp_divides [OF assms(1,3,4)] obtain j where j: "ulp r * (2 ^ (52 - m) * 2 ^ j) = 1"
    by auto
  have u: "0 < ulp r" by (rule ulp_pos)
  have inv: "1 / ulp r = 2 ^ (52 - m) * 2 ^ j"
    using j u by (simp add: field_simps)
  have "d / ulp r = d * (1 / ulp r)" by simp
  also have "\<dots> = real_of_int (k * 2 ^ j)"
    unfolding inv using assms(5) by (simp add: algebra_simps)
  finally have dk: "d / ulp r = real_of_int (k * 2 ^ j)" .
  have "d / ulp r \<le> r / ulp r"
    using assms(2) u by (simp add: divide_right_mono)
  then have "k * 2 ^ j \<le> roundEven (r / ulp r)"
    unfolding dk by (rule roundEven_ge)
  then have "real_of_int (k * 2 ^ j) \<le> real_of_int (roundEven (r / ulp r))"
    by (simp only: of_int_le_iff)
  then have "d / ulp r \<le> real_of_int (roundEven (r / ulp r))"
    by (simp only: dk)
  then have "d \<le> real_of_int (roundEven (r / ulp r)) * ulp r"
    using u by (simp add: field_simps)
  then show ?thesis
    using assms(1) by (simp add: roundDouble_def)
qed

lemma roundDouble_exact:
  assumes "0 < r" and "r < 2 ^ Suc m" and "m \<le> 52"
    and "r * 2 ^ (52 - m) = real_of_int k"
  shows "roundDouble r = r"
proof -
  have "roundDouble r \<le> r"
    using assms(1) order_refl assms(2,3,4) by (rule roundDouble_le)
  moreover have "r \<le> roundDouble r"
    using assms(1) order_refl assms(2,3,4) by (rule roundDouble_ge)
  ultimately show ?thesis by simp
qed

lemma roundDouble_binade:
  assumes "2 ^ m \<le> r" and "r < 2 ^ Suc m" and "m \<le> 52"
  shows "roundDouble r = real_of_int (roundEven (r * 2 ^ (52 - m))) / 2 ^ (52 - m)"
proof -
  have "0 < r"
    using assms(1) by (rule less_le_trans [rotated]) simp
  then show ?thesis
    by (simp add: roundDouble_def ulp_eq [OF assms])
qed


lemma roundDouble_nat:
  assumes "0 < n" and "n < 2 ^ Suc m" and "m \<le> 52"
  shows "roundDouble (real n) = real n"
proof (rule roundDouble_exact [where m = m and k = "int (n * 2 ^ (52 - m))"])
  show "0 < real n" using assms(1) by simp
  have "real n < real (2 ^ Suc m)"
    using assms(2) by (simp only: of_nat_less_iff)
  then show "real n < 2 ^ Suc m" by simp
  show "m \<le> 52" by (rule assms(3))
  show "real n * 2 ^ (52 - m) = real_of_int (int (n * 2 ^ (52 - m)))" by simp
qed

lemma roundDouble_120: "roundDouble 120 = 120"
  using roundDouble_nat [of 120 6] by simp

lemma roundDouble_320: "roundDouble 320 = 320"
  using roundDouble_nat [of 320 8] by simp

lemma roundDouble_600: "roundDouble 600 = 600"
  using roundDouble_nat [of 600 9] by simp

lemma numMul_range:
  assumes "0 \<le> r" and "r < 1"
  shows "0 \<le> numMul r 120 \<and> numMul r 120 \<le> 120"
proof (cases "r = 0")
  case True
  then show ?thesis by (simp add: numMul_def roundDouble_def)
next
  case False
  with assms have pos: "0 < r * 120" by simp
  have lt: "r * 120 < 2 ^ Suc 6" using assms(2) by simp
  have "roundDouble (r * 120) \<le> 120"
    using pos _ lt by (rule roundDouble_le [where k = "120 * 2 ^ 46"]) (use assms in simp_all)
  moreover have "0 \<le> roundDouble (r * 120)"
    using pos _ lt by (rule roundDouble_ge [where k = 0]) (use assms in simp_all)
  ultimately show ?thesis by (simp add: numMul_def)
qed

lemma numAdd_100_range:
  assumes "0 \<le> a" and "a \<le> 120"
  shows "100 \<le> numAdd a 100 \<and> numAdd a 100 \<le> 220"
proof -
  have pos: "0 < a + 100" using assms by simp
  have lt: "a + 100 < 2 ^ Suc 7" using assms by simp
  have "roundDouble (a + 100) \<le> 220"
    using pos _ lt by (rule roundDouble_le [where k = "220 * 2 ^ 45"]) (use assms in simp_all)
  moreover have "100 \<le> roundDouble (a + 100)"
    using pos _ lt by (rule roundDouble_ge [where k = "100 * 2 ^ 45"]) (use assms in simp_all)
  ultimately show ?thesis by (simp add: numAdd_def)
qed

lemma pipeHeight_range:
  assumes "0 \<le> r" and "r < 1"
  shows "100 \<le> numAdd (numMul r 120) 100 \<and> numAdd (numMul r 120) 100 \<le> 220"
  using numMul_range [OF assms] numAdd_100_range [of "numMul r 120"]
  by simp

text \<open>Between 256 and 512 the doubles are the multiples of \<open>2 ^ - 44\<close>.\<close>

lemma roundDouble_256_512:
  assumes "380 \<le> r" and "r \<le> 500"
  shows "roundDouble r = real_of_int (roundEven (r * 2 ^ 44)) / 2 ^ 44"
  using roundDouble_binade [of 8 r] assms by simp

lemma bottom_fork_fields:
  assumes "100 \<le> h" and "h \<le> 220"
  shows "380 \<le> numAdd h 280" and "numAdd h 280 \<le> 500"
    and "numSub (numSub 600 h) 280 = numSub 600 h - 280"
    and "numAdd h 280 + numSub (numSub 600 h) 280 = 600"
    and "numAdd (numAdd h 280) (numSub (numSub 600 h) 280) = 600"
proof -
  have pos: "0 < h + 280" and lt: "h + 280 < 2 ^ Suc 8" using assms by simp_all
  show lo: "380 \<le> numAdd h 280"
    unfolding numAdd_def
    using pos _ lt by (rule roundDouble_ge [where k = "380 * 2 ^ 44"]) (use assms in simp_all)
  show hi: "numAdd h 280 \<le> 500"
    unfolding numAdd_def
    using pos _ lt by (rule roundDouble_le [where k = "500 * 2 ^ 44"]) (use assms in simp_all)
  have pos': "0 < 600 - h" and lt': "600 - h < 2 ^ Suc 8" using assms by simp_all
  have lo': "380 \<le> numSub 600 h"
    unfolding numSub_def
    using pos' _ lt' by (rule roundDouble_ge [where k = "380 * 2 ^ 44"]) (use assms in simp_all)
  have hi': "numSub 600 h \<le> 500"
    unfolding numSub_def
    using pos' _ lt' by (rule roundDouble_le [where k = "500 * 2 ^ 44"]) (use assms in simp_all)
  define t where "t = h * 2 ^ 44"
  have y: "numAdd h 280 = real_of_int (roundEven (h * 2 ^ 44 + real_of_int (280 * 2 ^ 44))) / 2 ^ 44"
    unfolding numAdd_def using roundDouble_256_512 [of "h + 280"] assms
    by (simp add: algebra_simps)
  have a: "numSub 600 h = real_of_int (roundEven (- (h * 2 ^ 44) + real_of_int (600 * 2 ^ 44))) / 2 ^ 44"
    unfolding numSub_def using roundDouble_256_512 [of "600 - h"] assms
    by (simp add: algebra_simps)
  have y': "numAdd h 280 = (real_of_int (roundEven (h * 2 ^ 44)) + 280 * 2 ^ 44) / 2 ^ 44"
    unfolding y by (subst roundEven_add_even) simp_all
  have a': "numSub 600 h = (- real_of_int (roundEven (h * 2 ^ 44)) + 600 * 2 ^ 44) / 2 ^ 44"
    unfolding a by (subst roundEven_add_even) (simp_all add: roundEven_minus)
  have e: "(numSub 600 h - 280) * 2 ^ (52 - 7) =
      real_of_int (2 * (- roundEven (h * 2 ^ 44) + 600 * 2 ^ 44) - 280 * 2 ^ 45)"
    unfolding a' by (simp add: field_simps)
  have "roundDouble (numSub 600 h - 280) = numSub 600 h - 280"
  proof (rule roundDouble_exact [where m = 7])
    show "0 < numSub 600 h - 280" using lo' by simp
    show "numSub 600 h - 280 < 2 ^ Suc 7" using hi' by simp
    show "7 \<le> (52::nat)" by simp
    show "(numSub 600 h - 280) * 2 ^ (52 - 7) =
      real_of_int (2 * (- roundEven (h * 2 ^ 44) + 600 * 2 ^ 44) - 280 * 2 ^ 45)"
      by (rule e)
  qed
  then show b: "numSub (numSub 600 h) 280 = numSub 600 h - 280"
    by (simp add: numSub_def)
  show s: "numAdd h 280 + numSub (numSub 600 h) 280 = 600"
    unfolding b unfolding y' a' by (simp add: field_simps)
  show "numAdd (numAdd h 280) (numSub (numSub 600 h) 280) = 600"
    unfolding numAdd_def [of "numAdd h 280"] s by (rule roundDouble_600)
qed


lemma largestDraw_double: "roundDouble largestDraw = largestDraw"
proof -
  have pos: "0 < largestDraw" by (simp add: largestDraw_def)
  have b: "2 powr real_of_int (- 1) \<le> largestDraw \<and> largestDraw < 2 powr real_of_int (- 1 + 1)"
    by (simp add: largestDraw_def powr_minus_divide)
  have "\<lfloor>log 2 largestDraw\<rfloor> = - 1"
    by (rule floor_log_eq_powr_iff [THEN iffD2, OF pos _ b]) simp
  then have "exponent largestDraw = - 1"
    using pos by (simp add: exponent_def)
  then have "ulp largestDraw = 2 powr (- 53)"
    by (simp add: ulp_def)
  then have u: "ulp largestDraw = 1 / 2 ^ 53"
    by (simp add: powr_minus_divide)
  have "largestDraw / ulp largestDraw = real_of_int (2 ^ 53 - 1)"
    unfolding u by (simp add: largestDraw_def)
  then have "roundEven (largestDraw / ulp largestDraw) = 2 ^ 53 - 1"
    by (simp only: roundEven_of_int)
  then have "roundDouble largestDraw = real_of_int (2 ^ 53 - 1) * (1 / 2 ^ 53)"
    using pos by (simp only: roundDouble_def u) simp
  then show ?thesis
    by (simp add: largestDraw_def)
qed

lemma numMul_largestDraw: "numMul largestDraw 120 = 120 - 1 / 2 ^ 46"
proof -
  have "numMul largestDraw 120 =
      real_of_int (roundEven (largestDraw * 120 * 2 ^ (52 - 6))) / 2 ^ (52 - 6)"
    unfolding numMul_def by (rule roundDouble_binade) (simp_all add: largestDraw_def)
  also have "largestDraw * 120 * 2 ^ (52 - 6) = 135107988821114865 / 16"
    by (simp add: largestDraw_def)
  also have "roundEven (135107988821114865 / 16) = 8444249301319679"
  proof -
    have "\<lfloor>135107988821114865 / 16 :: real\<rfloor> = 8444249301319679" by simp
    then show ?thesis
      unfolding roundEven_def Let_def by (simp only:) simp
  qed
  finally show ?thesis by simp
qed

lemma pipeHeight_largestDraw: "numAdd (numMul largestDraw 120) 100 = 220"
proof -
  have "numAdd (numMul largestDraw 120) 100 = roundDouble (120 - 1 / 2 ^ 46 + 100)"
    by (simp add: numMul_largestDraw numAdd_def)
  also have "\<dots> = real_of_int (roundEven ((120 - 1 / 2 ^ 46 + 100) * 2 ^ (52 - 7))) / 2 ^ (52 - 7)"
    by (rule roundDouble_binade) simp_all
  also have "(120 - 1 / 2 ^ 46 + 100) * 2 ^ (52 - 7) = (15481123719086079 / 2 :: real)"
    by simp
  also have "roundEven (15481123719086079 / 2) = 7740561859543040"
  proof -
    have "\<lfloor>15481123719086079 / 2 :: real\<rfloor> = 7740561859543039" by simp
    then show ?thesis
      unfolding roundEven_def Let_def by (simp only:) simp
  qed
  finally show ?thesis by simp
qed

lemma spawn_factor: "numSub (numSub GAME_HEIGHT PIPE_GAP) 200 = 120"
  by (simp add: numSub_def game_consts roundDouble_320 roundDouble_120)

section \<open>The soup surface is bounded\<close>

lemma soupSurfaceYAt_lower: "524 \<le> soupSurfaceYAt px frame"
proof -
  have a: "- 1 \<le> sin (px * 0.015 + frame * 0.06)" by simp
  have b: "- 1 \<le> sin (px * 0.035 - frame * 0.04)" by simp
  show ?thesis
    unfolding soupSurfaceYAt_def Let_def SOUP_BASE_Y_def GAME_HEIGHT_def
    using a b by linarith
qed

lemma soupSurfaceYAt_upper: "soupSurfaceYAt px frame \<le> 556"
proof -
  have a: "sin (px * 0.015 + frame * 0.06) \<le> 1" by simp
  have b: "sin (px * 0.035 - frame * 0.04) \<le> 1" by simp
  show ?thesis
    unfolding soupSurfaceYAt_def Let_def SOUP_BASE_Y_def GAME_HEIGHT_def
    using a b by linarith
qed

text \<open>
  C6: \<^verbatim>\<open>soupSurfaceYAt\<close> is a function of its two arguments alone: the baseline 540
  plus a sine of amplitude 10 and a sine of amplitude 6, the second with the frame term
  subtracted. Its value stays within 16 of the baseline for every position and frame.
\<close>

theorem soupSurface_bounded:
  "soupSurfaceYAt px frame =
     540 + sin (px * 0.015 + frame * 0.06) * 10 + sin (px * 0.035 - frame * 0.04) * 6 \<and>
   SOUP_BASE_Y = 540 \<and>
   SOUP_BASE_Y - 16 \<le> soupSurfaceYAt px frame \<and> soupSurfaceYAt px frame \<le> SOUP_BASE_Y + 16"
  using soupSurfaceYAt_lower [of px frame] soupSurfaceYAt_upper [of px frame]
  by (simp add: soupSurfaceYAt_def SOUP_BASE_Y_def GAME_HEIGHT_def)

section \<open>Session transitions\<close>

text \<open>
  C1 as stated fails: from \<open>playing\<close>, \<^verbatim>\<open>toMenu\<close> does change the phase.
\<close>

theorem toMenu_from_playing_counterexample:
  "gameState (startGame initialComponent) = playing \<and>
   gameState (toMenu (startGame initialComponent)) \<noteq> playing"
  by (simp add: toMenu_def startGame_def resetGame_def)

text \<open>
  C1, amended: \<^verbatim>\<open>toMenu\<close> has no guard. From every phase it sets the phase to
  \<open>menu\<close> and changes nothing else. Its only caller is the button of the game-over
  overlay, so the button does nothing in the other phases and calls it in \<open>gameOver\<close>.
\<close>

theorem toMenu_unguarded:
  "gameState (toMenu s) = menu \<and> score (toMenu s) = score s \<and>
   highScore (toMenu s) = highScore s \<and> gameData (toMenu s) = gameData s \<and>
   (gameState s \<noteq> gameOver \<longrightarrow> handle s ToMenuButton = s) \<and>
   (gameState s = gameOver \<longrightarrow> handle s ToMenuButton = toMenu s)"
  by (simp add: toMenu_def)

theorem toMenu_unguarded_witness:
  "gameState (startGame initialComponent) \<noteq> gameOver \<and>
   handle (startGame initialComponent) ToMenuButton = startGame initialComponent \<and>
   gameState (endGame 0 initialComponent) = gameOver \<and>
   handle (endGame 0 initialComponent) ToMenuButton = toMenu (endGame 0 initialComponent) \<and>
   gameState (toMenu (endGame 0 initialComponent)) = menu"
  using toMenu_unguarded [of "startGame initialComponent"]
    toMenu_unguarded [of "endGame 0 initialComponent"]
  by (simp add: startGame_def resetGame_def endGame_def)

section \<open>Player integration\<close>

lemma gameLoop_velocity:
  "velocity (player (gameData (gameLoop rn s))) =
   min (velocity (player (gameData s)) + GRAVITY) MAX_FALL_SPEED"
  by (simp add: gameLoop_def advance_def endGame_def updatePlayer_def Let_def min_def
      split: prod.splits)

lemma run_snoc: "run s (es @ [e]) = handle (run s es) e"
  by (simp add: run_def)

lemma frames_velocity:
  "gameState s = playing \<Longrightarrow> rs \<noteq> [] \<Longrightarrow>
   velocity (player (gameData (run s (map Frame rs)))) \<le> MAX_FALL_SPEED"
proof (induction rs rule: rev_induct)
  case Nil
  then show ?case by simp
next
  case (snoc r rs)
  show ?case
  proof (cases "rs = []")
    case True
    with snoc.prems show ?thesis
      by (simp add: run_def gameLoop_velocity)
  next
    case False
    with snoc have "velocity (player (gameData (run s (map Frame rs)))) \<le> MAX_FALL_SPEED"
      by simp
    then show ?thesis
      by (simp add: run_snoc gameLoop_velocity)
  qed
qed

text \<open>
  C3: after the integration step of any frame the velocity is at most
  \<^verbatim>\<open>MAX_FALL_SPEED\<close> = 12; it is the old velocity plus the gravity, capped from above
  only, so nothing bounds it from below. The bound holds after any positive number of
  frames from a playing state.
\<close>

theorem velocity_clamped:
  "MAX_FALL_SPEED = 12 \<and>
   velocity (player (gameData (gameLoop rn s))) \<le> MAX_FALL_SPEED \<and>
   velocity (player (gameData (gameLoop rn s))) =
     min (velocity (player (gameData s)) + GRAVITY) MAX_FALL_SPEED \<and>
   (gameState s = playing \<and> rs \<noteq> [] \<longrightarrow>
      velocity (player (gameData (run s (map Frame rs)))) \<le> MAX_FALL_SPEED)"
  using frames_velocity [of s rs]
  by (simp add: gameLoop_velocity) (simp add: MAX_FALL_SPEED_def)

theorem velocity_clamped_witness:
  "gameState (startGame initialComponent) = playing \<and> [rnd0, rnd0] \<noteq> [] \<and>
   velocity (player (gameData (run (startGame initialComponent) (map Frame [rnd0, rnd0]))))
     \<le> MAX_FALL_SPEED"
  using velocity_clamped [of rnd0 "startGame initialComponent" "[rnd0, rnd0]"]
  by (simp add: startGame_def resetGame_def)

section \<open>Spawning forks\<close>

lemma roundDouble_100: "roundDouble 100 = 100"
  using roundDouble_nat [of 100 6] by simp

lemma roundDouble_380: "roundDouble 380 = 380"
  using roundDouble_nat [of 380 8] by simp

lemma roundDouble_500: "roundDouble 500 = 500"
  using roundDouble_nat [of 500 8] by simp

lemma roundDouble_60: "roundDouble 60 = 60"
  using roundDouble_nat [of 60 5] by simp

lemma roundDouble_160: "roundDouble 160 = 160"
  using roundDouble_nat [of 160 7] by simp

lemma roundDouble_440: "roundDouble 440 = 440"
  using roundDouble_nat [of 440 8] by simp

lemma roundDouble_220: "roundDouble 220 = 220"
  using roundDouble_nat [of 220 7] by simp

lemma generateForks_spawn:
  "fc mod SPAWN_INTERVAL = 0 \<Longrightarrow>
   generateForks rand fc ps =
     ps @ [\<lparr>x = 800, y = 0, width = 80, height = numAdd (numMul rand 120) 100, passed = False\<rparr>,
           \<lparr>x = 800, y = numAdd (numAdd (numMul rand 120) 100) 280, width = 80,
             height = numSub (numSub 600 (numAdd (numMul rand 120) 100)) 280, passed = False\<rparr>]"
  by (simp add: generateForks_def Let_def spawn_factor)
    (simp add: GAME_WIDTH_def GAME_HEIGHT_def PIPE_WIDTH_def PIPE_GAP_def)

text \<open>
  C5 as stated fails at the upper end of the interval: for the largest double below 1,
  which \<^verbatim>\<open>Math.random()\<close> may return, the two roundings of \<^verbatim>\<open>rand * 120 + 100\<close> give
  the height 220 itself.
\<close>

theorem spawn_height_220_counterexample:
  "unitInterval largestDraw \<and> roundDouble largestDraw = largestDraw \<and>
   (280::nat) mod SPAWN_INTERVAL = 0 \<and>
   generateForks largestDraw 280 [] =
     [\<lparr>x = 800, y = 0, width = 80, height = 220, passed = False\<rparr>,
      \<lparr>x = 800, y = 500, width = 80, height = 100, passed = False\<rparr>] \<and>
   \<not> height (hd (generateForks largestDraw 280 [])) < 220"
proof -
  have a: "(280::nat) mod SPAWN_INTERVAL = 0"
    by (simp add: SPAWN_INTERVAL_def)
  have b: "unitInterval largestDraw"
    by (simp add: unitInterval_def largestDraw_def)
  have "generateForks largestDraw 280 [] =
     [\<lparr>x = 800, y = 0, width = 80, height = 220, passed = False\<rparr>,
      \<lparr>x = 800, y = 500, width = 80, height = 100, passed = False\<rparr>]"
    by (simp add: generateForks_spawn [OF a] pipeHeight_largestDraw)
      (simp add: numAdd_def numSub_def roundDouble_500 roundDouble_380 roundDouble_100)
  with a b largestDraw_double show ?thesis by simp
qed

text \<open>
  C5, amended: on a frame whose number is a multiple of 140 the spawner appends a top
  fork at \<open>y = 0\<close> whose height \<open>h\<close> is \<^verbatim>\<open>rand * 120 + 100\<close> as the doubles compute it,
  which lies in the closed interval \<open>[100, 220]\<close> for a draw in \<open>[0, 1)\<close>, and a bottom fork
  at \<open>y = h + 280\<close> of height \<open>600 - h - 280\<close>, both computed in doubles, both forks at
  \<open>x = 800\<close> and of width 80. The sum of the top height, the gap and the bottom height,
  computed in doubles, is exactly 600, and the bottom fork ends exactly at 600. On other
  frames nothing is appended. The game loop calls the spawner with the incremented frame
  count.
\<close>

theorem spawned_pair_rounded:
  "(fc mod SPAWN_INTERVAL \<noteq> 0 \<longrightarrow> generateForks rand fc ps = ps) \<and>
   (fc mod SPAWN_INTERVAL = 0 \<and> unitInterval rand \<longrightarrow>
      (let h = numAdd (numMul rand 120) 100;
           top = \<lparr>x = 800, y = 0, width = 80, height = h, passed = False\<rparr>;
           bottom = \<lparr>x = 800, y = numAdd h 280, width = 80,
                      height = numSub (numSub 600 h) 280, passed = False\<rparr>
       in generateForks rand fc ps = ps @ [top, bottom] \<and>
          100 \<le> h \<and> h \<le> 220 \<and> h \<le> GAME_HEIGHT - PIPE_GAP - 100 \<and>
          numAdd (numAdd (height top) PIPE_GAP) (height bottom) = GAME_HEIGHT \<and>
          y bottom + height bottom = GAME_HEIGHT)) \<and>
   SPAWN_INTERVAL = 140 \<and>
   frameCount (fst (advance rn g)) = frameCount g + 1 \<and>
   pipes (fst (advance rn g)) =
     fst (updateForks (x (player g)) (generateForks (rndPipe rn) (frameCount g + 1) (pipes g)))"
proof -
  have spawn: "(let h = numAdd (numMul rand 120) 100;
           top = \<lparr>x = 800, y = 0, width = 80, height = h, passed = False\<rparr>;
           bottom = \<lparr>x = 800, y = numAdd h 280, width = 80,
                      height = numSub (numSub 600 h) 280, passed = False\<rparr>
       in generateForks rand fc ps = ps @ [top, bottom] \<and>
          100 \<le> h \<and> h \<le> 220 \<and> h \<le> GAME_HEIGHT - PIPE_GAP - 100 \<and>
          numAdd (numAdd (height top) PIPE_GAP) (height bottom) = GAME_HEIGHT \<and>
          y bottom + height bottom = GAME_HEIGHT)"
    if "fc mod SPAWN_INTERVAL = 0" "unitInterval rand"
  proof -
    from that(2) have r: "0 \<le> rand" "rand < 1"
      by (simp_all add: unitInterval_def)
    note h = pipeHeight_range [OF r]
    from h have h1: "100 \<le> numAdd (numMul rand 120) 100" and h2: "numAdd (numMul rand 120) 100 \<le> 220"
      by simp_all
    note f = bottom_fork_fields [OF h1 h2]
    show ?thesis
      using h1 h2 f(4) f(5)
      by (simp add: Let_def generateForks_spawn [OF that(1)])
        (simp add: GAME_HEIGHT_def PIPE_GAP_def)
  qed
  have rest: "frameCount (fst (advance rn g)) = frameCount g + 1 \<and>
      pipes (fst (advance rn g)) =
        fst (updateForks (x (player g))
          (generateForks (rndPipe rn) (frameCount g + 1) (pipes g)))"
    by (simp add: advance_def Let_def updatePlayer_def split: prod.splits)
  have none: "generateForks rand fc ps = ps" if "fc mod SPAWN_INTERVAL \<noteq> 0"
    using that by (simp add: generateForks_def)
  from spawn rest none show ?thesis
    by (simp add: SPAWN_INTERVAL_def)
qed

theorem spawned_pair_rounded_witness:
  "(280::nat) mod SPAWN_INTERVAL = 0 \<and> unitInterval (1 / 2) \<and>
   (141::nat) mod SPAWN_INTERVAL \<noteq> 0 \<and>
   generateForks (1 / 2) 141 [] = [] \<and>
   generateForks (1 / 2) 280 [] =
     [\<lparr>x = 800, y = 0, width = 80, height = 160, passed = False\<rparr>,
      \<lparr>x = 800, y = 440, width = 80, height = 160, passed = False\<rparr>]"
proof -
  have a: "(280::nat) mod SPAWN_INTERVAL = 0" and b: "(141::nat) mod SPAWN_INTERVAL \<noteq> 0"
    by (simp_all add: SPAWN_INTERVAL_def)
  have c: "unitInterval (1 / 2)"
    by (simp add: unitInterval_def)
  have h: "numAdd (numMul (1 / 2) 120) 100 = 160"
    by (simp add: numAdd_def numMul_def roundDouble_60 roundDouble_160)
  have y: "numAdd 160 280 = 440" and k: "numSub (numSub 600 160) 280 = 160"
    by (simp_all add: numAdd_def numSub_def roundDouble_440 roundDouble_160)
  from a c spawned_pair_rounded [of 280 "1 / 2" "[]"]
  have d: "generateForks (1 / 2) 280 [] =
     [\<lparr>x = 800, y = 0, width = 80, height = 160, passed = False\<rparr>,
      \<lparr>x = 800, y = 440, width = 80, height = 160, passed = False\<rparr>]"
    by (simp add: Let_def h y k)
  from b spawned_pair_rounded [of 141 "1 / 2" "[]"]
  have e: "generateForks (1 / 2) 141 [] = []"
    by simp
  from a b c d e show ?thesis by simp
qed

section \<open>The stages of a frame\<close>

lemma forkCallback_x [simp]: "x (fst (forkCallback px p)) = x p - GAME_SPEED"
  by (simp add: forkCallback_def Let_def)

lemma forkCallback_y [simp]: "y (fst (forkCallback px p)) = y p"
  by (simp add: forkCallback_def Let_def)

lemma forkCallback_width [simp]: "width (fst (forkCallback px p)) = width p"
  by (simp add: forkCallback_def Let_def)

lemma forkCallback_height [simp]: "height (fst (forkCallback px p)) = height p"
  by (simp add: forkCallback_def Let_def)

lemma forkCallback_passed:
  "passed (fst (forkCallback px p)) =
     (passed p \<or> (y p = 0 \<and> x p - GAME_SPEED + width p < px))"
  by (auto simp add: forkCallback_def Let_def)

lemma forkCallback_inc:
  "fst (snd (forkCallback px p)) =
     (if \<not> passed p \<and> y p = 0 \<and> x p - GAME_SPEED + width p < px then 1 else 0)"
  by (simp add: forkCallback_def Let_def)

lemma forkCallback_keep:
  "snd (snd (forkCallback px p)) = (x p - GAME_SPEED + width p > 0)"
  by (simp add: forkCallback_def Let_def)

lemma updateForks_Nil [simp]: "updateForks px [] = ([], 0)"
  by (simp add: updateForks_def)

lemma updateForks_Cons_fst:
  "fst (updateForks px (p # ps)) =
     (if x p - GAME_SPEED + width p > 0 then fst (forkCallback px p) # fst (updateForks px ps)
      else fst (updateForks px ps))"
  by (simp add: updateForks_def Let_def forkCallback_keep)

lemma updateForks_Cons_snd:
  "snd (updateForks px (p # ps)) = fst (snd (forkCallback px p)) + snd (updateForks px ps)"
  by (simp add: updateForks_def Let_def)

lemma updateForks_kept:
  "fst (updateForks px ps) =
     map (\<lambda>p. fst (forkCallback px p)) (filter (\<lambda>p. \<not> (x p - GAME_SPEED + width p \<le> 0)) ps)"
  by (induction ps) (simp_all add: updateForks_Cons_fst not_le)

lemma updateForks_count:
  "snd (updateForks px ps) =
     length (filter (\<lambda>p. \<not> passed p \<and> y p = 0 \<and> x p - GAME_SPEED + width p < px) ps)"
  by (induction ps) (simp_all add: updateForks_Cons_snd forkCallback_inc)

lemma advance_pipes:
  "pipes (fst (advance rn g)) =
     fst (updateForks (x (player g)) (generateForks (rndPipe rn) (frameCount g + 1) (pipes g)))"
  by (simp add: advance_def Let_def updatePlayer_def split: prod.splits)

lemma advance_inc:
  "snd (advance rn g) =
     snd (updateForks (x (player g)) (generateForks (rndPipe rn) (frameCount g + 1) (pipes g)))"
  by (simp add: advance_def Let_def updatePlayer_def split: prod.splits)

lemma advance_frameCount: "frameCount (fst (advance rn g)) = frameCount g + 1"
  by (simp add: advance_def Let_def split: prod.splits)

lemma advance_bubbles:
  "bubbles (fst (advance rn g)) = updateBubbles rn (frameCount g + 1) (bubbles g)"
  by (simp add: advance_def Let_def split: prod.splits)

lemma advance_player: "player (fst (advance rn g)) = updatePlayer (player g)"
  by (simp add: advance_def Let_def split: prod.splits)

lemma gameLoop_gameData: "gameData (gameLoop rn s) = fst (advance rn (gameData s))"
  by (simp add: gameLoop_def endGame_def Let_def split: prod.splits)

lemma gameLoop_score: "score (gameLoop rn s) = score s + snd (advance rn (gameData s))"
  by (simp add: gameLoop_def endGame_def Let_def split: prod.splits)

lemma gameLoop_gameState:
  "gameState (gameLoop rn s) =
     (if collisionDetection (fst (advance rn (gameData s))) then gameOver else gameState s)"
  by (simp add: gameLoop_def endGame_def Let_def split: prod.splits)

lemma gameLoop_highScore:
  "highScore (gameLoop rn s) =
     (if collisionDetection (fst (advance rn (gameData s))) then max (highScore s) (score s)
      else highScore s)"
  by (simp add: gameLoop_def endGame_def Let_def split: prod.splits)

section \<open>Removal of forks\<close>

text \<open>
  C2 as stated fails in its second half: in the frame in which a fork's right edge
  reaches 0 the filter drops it, and the collision loop, which runs afterwards on the
  list the filter left, never examines it.
\<close>

theorem removal_before_collision_counterexample:
  "leavingFork \<in> set (pipes leavingData) \<and>
   x leavingFork - GAME_SPEED + width leavingFork \<le> 0 \<and>
   fst (forkCallback (x (player leavingData)) leavingFork)
     \<notin> set (pipes (fst (advance rnd0 leavingData))) \<and>
   pipes (fst (advance rnd0 leavingData)) =
     [\<lparr>x = 464.6, y = 0, width = 80, height = 160, passed = False\<rparr>,
      \<lparr>x = 464.6, y = 440, width = 80, height = 160, passed = False\<rparr>]"
  by (simp add: advance_pipes leavingData_def leavingFork_def generateForks_def
      updateForks_Cons_fst forkCallback_def game_consts Let_def)

text \<open>
  C2, amended: in every frame a fork is removed if and only if its right edge is at or
  left of 0 after that frame's move. The filter runs before the collision detection,
  which examines the forks that remain; a removed fork lies at or left of 0 and cannot
  overlap a player whose left edge is at 0 or to the right of it.
\<close>

theorem forks_removed_iff:
  "fst (updateForks px ps) =
     map (\<lambda>p. fst (forkCallback px p)) (filter (\<lambda>p. \<not> (x p - GAME_SPEED + width p \<le> 0)) ps) \<and>
   x (fst (forkCallback px p)) + width (fst (forkCallback px p)) = x p - GAME_SPEED + width p \<and>
   pipes (fst (advance rn g)) =
     fst (updateForks (x (player g)) (generateForks (rndPipe rn) (frameCount g + 1) (pipes g))) \<and>
   gameState (gameLoop rn s) =
     (if collisionDetection (fst (advance rn (gameData s))) then gameOver else gameState s) \<and>
   (x p + width p \<le> 0 \<and> 0 \<le> x pl \<longrightarrow> \<not> overlaps pl p)"
  using updateForks_kept [of px ps]
  by (simp add: advance_pipes gameLoop_gameState overlaps_def)

theorem forks_removed_iff_witness:
  "x (fst (forkCallback 150 leavingFork)) + width (fst (forkCallback 150 leavingFork)) \<le> 0 \<and>
   0 \<le> x (player leavingData) \<and>
   \<not> overlaps (player leavingData) (fst (forkCallback 150 leavingFork))"
  using forks_removed_iff [of 150 "[]" leavingFork rnd0 leavingData initialComponent
      "player leavingData"]
    forks_removed_iff [of 150 "[]" "fst (forkCallback 150 leavingFork)" rnd0 leavingData
      initialComponent "player leavingData"]
  by (simp add: leavingFork_def leavingData_def GAME_SPEED_def)

section \<open>Scoring\<close>










section \<open>Bubbles\<close>

lemma spawned_bubble_retired:
  assumes "validRnd rn"
  shows "\<not> snd (bubbleCallback fc
           \<lparr>bubble_x = rndBubbleX rn * GAME_WIDTH, bubble_y = GAME_HEIGHT - 6,
            bubble_r = 2 + rndBubbleR rn * 5, bubble_vy = - 0.6 - rndBubbleVy rn * 0.9,
            bubble_wobble = rndBubbleWobble rn * pi * 2\<rparr>)"
proof -
  let ?sx = "rndBubbleX rn * GAME_WIDTH + sin (real fc * 0.12 + rndBubbleWobble rn * pi * 2) * 0.25"
  have s: "soupSurfaceYAt ?sx (real fc) \<le> 556"
    by (rule soupSurfaceYAt_upper)
  have r: "0 \<le> rndBubbleR rn" and v: "rndBubbleVy rn < 1"
    using assms by (simp_all add: validRnd_def unitInterval_def)
  have "\<not> (GAME_HEIGHT - 6 + (- 0.6 - rndBubbleVy rn * 0.9) + (2 + rndBubbleR rn * 5)
            < soupSurfaceYAt ?sx (real fc) - 2)"
    using s r v by (simp add: GAME_HEIGHT_def)
  then show ?thesis
    by (simp add: bubbleCallback_def Let_def)
qed

lemma updateBubbles_empty:
  "validRnd rn \<Longrightarrow> updateBubbles rn fc [] = []"
  using spawned_bubble_retired [of rn fc]
  by (simp add: updateBubbles_def spawnBubble_def)

lemma handle_bubbles:
  "validEvent e \<Longrightarrow> bubbles (gameData s) = [] \<Longrightarrow> bubbles (gameData (handle s e)) = []"
  by (cases e)
    (simp_all add: startGame_def resetGame_def freshGameData_def jump_def toMenu_def
      gameLoop_gameData advance_bubbles updateBubbles_empty)

lemma run_bubbles:
  "\<forall>e \<in> set es. validEvent e \<Longrightarrow> bubbles (gameData s) = [] \<Longrightarrow>
   bubbles (gameData (run s es)) = []"
  unfolding run_def
  by (induction es arbitrary: s) (simp_all add: handle_bubbles)

text \<open>
  C9: a bubble is retired by the filter in the frame that pushes it: it starts at
  \<open>y = 594\<close> with radius at least 2 and rises by at most 1.5, while the surface is at most
  556, so the test that keeps it fails. Hence the list of bubbles is empty after every
  frame, and in every state the events can reach.
\<close>

theorem bubbles_never_survive:
  "(validRnd rn \<longrightarrow>
      \<not> snd (bubbleCallback fc
           \<lparr>bubble_x = rndBubbleX rn * GAME_WIDTH, bubble_y = GAME_HEIGHT - 6,
            bubble_r = 2 + rndBubbleR rn * 5, bubble_vy = - 0.6 - rndBubbleVy rn * 0.9,
            bubble_wobble = rndBubbleWobble rn * pi * 2\<rparr>)) \<and>
   (validRnd rn \<and> bubbles (gameData s) = [] \<longrightarrow> bubbles (gameData (gameLoop rn s)) = []) \<and>
   ((\<forall>e \<in> set es. validEvent e) \<longrightarrow> bubbles (gameData (run initialComponent es)) = [])"
  using spawned_bubble_retired [of rn fc] run_bubbles [of es initialComponent]
  by (simp add: gameLoop_gameData advance_bubbles updateBubbles_empty initialComponent_def
      freshGameData_def)

theorem bubbles_never_survive_witness:
  "validRnd rnd0 \<and> validEvent (Frame rnd0) \<and> validEvent Space \<and>
   bubbles (gameData (run initialComponent
     [Space, Frame rnd0, Frame rnd0, Frame rnd0, Frame rnd0, Frame rnd0, Frame rnd0,
      Frame rnd0, Frame rnd0, Frame rnd0, Frame rnd0, Frame rnd0, Frame rnd0])) = [] \<and>
   bubbles (gameData (gameLoop rnd0 initialComponent)) = []"
  using bubbles_never_survive [of rnd0 12 initialComponent
      "[Space, Frame rnd0, Frame rnd0, Frame rnd0, Frame rnd0, Frame rnd0, Frame rnd0,
        Frame rnd0, Frame rnd0, Frame rnd0, Frame rnd0, Frame rnd0, Frame rnd0]"]
  by (simp add: validRnd_def unitInterval_def rnd0_def initialComponent_def freshGameData_def)

section \<open>Forks come in pairs\<close>

lemma samePairs_append: "samePairs ps \<Longrightarrow> samePairs qs \<Longrightarrow> samePairs (ps @ qs)"
  by (induction ps rule: samePairs.induct) simp_all

lemma samePairs_even: "samePairs ps \<Longrightarrow> even (length ps)"
  by (induction ps rule: samePairs.induct) simp_all

lemma samePairs_generateForks: "samePairs ps \<Longrightarrow> samePairs (generateForks rand fc ps)"
  by (simp add: generateForks_def Let_def samePairs_append)

lemma samePairs_updateForks: "samePairs ps \<Longrightarrow> samePairs (fst (updateForks px ps))"
  by (induction ps rule: samePairs.induct) (simp_all add: updateForks_Cons_fst)

lemma handle_samePairs:
  "samePairs (pipes (gameData s)) \<Longrightarrow> samePairs (pipes (gameData (handle s e)))"
  by (cases e)
    (simp_all add: startGame_def resetGame_def freshGameData_def jump_def toMenu_def
      gameLoop_gameData advance_pipes samePairs_generateForks samePairs_updateForks)

lemma run_samePairs:
  "samePairs (pipes (gameData s)) \<Longrightarrow> samePairs (pipes (gameData (run s es)))"
  unfolding run_def
  by (induction es arbitrary: s) (simp_all add: handle_samePairs)

text \<open>
  C10: the two forks of a pair are pushed with the same \<open>x\<close> and width and every frame
  moves each fork by the same 3.9, so the filter keeps or drops both; the list of forks
  consists of such pairs, and has even length, in every state the events can reach.
\<close>

theorem forks_stay_paired:
  "samePairs (pipes (gameData (run initialComponent es))) \<and>
   even (length (pipes (gameData (run initialComponent es)))) \<and>
   samePairs (generateForks rand fc []) \<and>
   x (fst (forkCallback px p)) = x p - 3.9 \<and> width (fst (forkCallback px p)) = width p \<and>
   (x p = x q \<and> width p = width q \<longrightarrow>
      snd (snd (forkCallback px p)) = snd (snd (forkCallback px q))) \<and>
   (samePairs ps \<longrightarrow> samePairs (fst (updateForks px ps)))"
  using run_samePairs [of initialComponent es]
  by (simp add: samePairs_even samePairs_generateForks samePairs_updateForks
      initialComponent_def freshGameData_def GAME_SPEED_def forkCallback_keep)

theorem forks_stay_paired_witness:
  "samePairs [topFork, bottomFork] \<and> x topFork = x bottomFork \<and>
   width topFork = width bottomFork \<and>
   snd (snd (forkCallback 150 topFork)) = snd (snd (forkCallback 150 bottomFork)) \<and>
   samePairs (fst (updateForks 150 [topFork, bottomFork])) \<and>
   samePairs (pipes (gameData (run initialComponent [Space, Frame rnd0])))"
  using forks_stay_paired [of "[Space, Frame rnd0]" 0 0 150 topFork bottomFork
      "[topFork, bottomFork]"]
  by (simp add: topFork_def bottomFork_def)

section \<open>A session without jumps\<close>

lemma idleVelocity_Suc: "idleVelocity (Suc k) = min (idleVelocity k + GRAVITY) MAX_FALL_SPEED"
  by (simp add: idleVelocity_def GRAVITY_def MAX_FALL_SPEED_def min_def field_simps)

lemma idleY_Suc: "idleY (Suc k) = idleY k + idleVelocity (Suc k)"
proof -
  consider "k \<le> 23" | "k = 24" | "25 \<le> k" by linarith
  then show ?thesis
  proof cases
    case 1
    then have "real k \<le> 23" by simp
    with 1 show ?thesis
      by (simp add: idleY_def idleVelocity_def min_def field_simps)
  next
    case 2
    then show ?thesis by (simp add: idleY_def idleVelocity_def)
  next
    case 3
    then have "25 \<le> real k" by simp
    with 3 show ?thesis
      by (simp add: idleY_def idleVelocity_def min_def field_simps)
  qed
qed

lemma updatePlayer_idle: "updatePlayer (idlePlayer k) = idlePlayer (Suc k)"
  unfolding idlePlayer_def updatePlayer_def Let_def idleY_Suc
  by (simp add: idleVelocity_Suc min_def del: of_nat_Suc)

lemma idleY_ge: "300 \<le> idleY k"
  by (simp add: idleY_def)

lemma idleState_start: "idleState (startGame s) 0"
  by (simp add: idleState_def startGame_def resetGame_def freshGameData_def idlePlayer_def
      idleY_def idleVelocity_def game_consts)

lemma idleState_gameLoop:
  assumes "idleState s k" and "Suc k < 140"
  shows "idleState (gameLoop rn s) (Suc k)"
proof -
  from assms(2) have "Suc k mod SPAWN_INTERVAL \<noteq> 0"
    by (simp add: SPAWN_INTERVAL_def)
  then have "generateForks (rndPipe rn) (Suc k) [] = []"
    by (simp add: generateForks_def)
  with assms(1) show ?thesis
    by (simp add: idleState_def gameLoop_gameData gameLoop_score advance_pipes advance_inc
        advance_frameCount advance_player updatePlayer_idle)
qed

lemma idle_collision:
  assumes "idleState s k"
  shows "collisionDetection (gameData s) = soupCollision (idlePlayer k) k"
  using assms idleY_ge [of k]
  by (simp add: idleState_def collisionDetection_def idlePlayer_def)

lemma idleFrames_playing_prev:
  "gameState (idleFrames rnds s (Suc k)) = playing \<Longrightarrow> gameState (idleFrames rnds s k) = playing"
  by (cases "gameState (idleFrames rnds s k) = playing") simp_all

lemma idleFrames_playing:
  "gameState (idleFrames rnds s k) = playing \<Longrightarrow> k < 140 \<Longrightarrow>
   idleState (idleFrames rnds s k) k \<and> (0 < k \<longrightarrow> \<not> soupCollision (idlePlayer k) k)"
proof (induction k)
  case 0
  then show ?case by (simp add: idleState_start)
next
  case (Suc k)
  let ?s = "idleFrames rnds s k"
  from Suc.prems have pl: "gameState ?s = playing"
    by (metis idleFrames_playing_prev)
  with Suc have st: "idleState ?s k" by simp
  have eq: "idleFrames rnds s (Suc k) = gameLoop (rnds k) ?s"
    using pl by simp
  from st Suc.prems have st': "idleState (gameLoop (rnds k) ?s) (Suc k)"
    by (simp add: idleState_gameLoop)
  from Suc.prems eq have "\<not> collisionDetection (fst (advance (rnds k) (gameData ?s)))"
    by (auto simp add: gameLoop_gameState split: if_splits)
  then have "\<not> collisionDetection (gameData (gameLoop (rnds k) ?s))"
    by (simp add: gameLoop_gameData)
  with idle_collision [OF st'] have "\<not> soupCollision (idlePlayer (Suc k)) (Suc k)"
    by simp
  with st' eq show ?case by simp
qed

lemma idle_soup_30: "soupCollision (idlePlayer 30) 30"
  using soupSurfaceYAt_upper [of "150 + 40 / 2" "real 30"]
  by (simp add: soupCollision_def idlePlayer_def idleY_def Let_def)

lemma idleY_le_26: "k \<le> 26 \<Longrightarrow> idleY k \<le> 474"
proof -
  assume k: "k \<le> 26"
  show ?thesis
  proof (cases "k \<le> 24")
    case True
    then have "real k \<le> 24" by simp
    then have "real k * (real k + 1) \<le> 24 * 25"
      by (intro mult_mono) simp_all
    with True show ?thesis by (simp add: idleY_def)
  next
    case False
    with k have "real k \<le> 26" by simp
    with False show ?thesis by (simp add: idleY_def)
  qed
qed

lemma idle_no_soup_early: "k \<le> 26 \<Longrightarrow> \<not> soupCollision (idlePlayer k) k"
  using soupSurfaceYAt_lower [of "150 + 40 / 2" "real k"] idleY_le_26 [of k]
  by (simp add: soupCollision_def idlePlayer_def Let_def)

lemma idle_not_playing_30: "gameState (idleFrames rnds s 30) \<noteq> playing"
  using idleFrames_playing [of rnds s 30] idle_soup_30 by auto

lemma idle_end:
  assumes pl: "gameState (idleFrames rnds s k) = playing"
    and np: "gameState (idleFrames rnds s (Suc k)) \<noteq> playing"
    and k: "Suc k < 140"
  shows "gameState (idleFrames rnds s (Suc k)) = gameOver \<and>
         idleState (idleFrames rnds s (Suc k)) (Suc k) \<and>
         soupCollision (idlePlayer (Suc k)) (Suc k)"
proof -
  let ?s = "idleFrames rnds s k"
  have eq: "idleFrames rnds s (Suc k) = gameLoop (rnds k) ?s"
    using pl by simp
  from pl k have st: "idleState ?s k"
    using idleFrames_playing [of rnds s k] by simp
  with k have st': "idleState (gameLoop (rnds k) ?s) (Suc k)"
    by (simp add: idleState_gameLoop)
  from np eq pl have c: "collisionDetection (fst (advance (rnds k) (gameData ?s)))"
    by (auto simp add: gameLoop_gameState split: if_splits)
  then have go: "gameState (gameLoop (rnds k) ?s) = gameOver"
    by (simp add: gameLoop_gameState)
  from c have "collisionDetection (gameData (gameLoop (rnds k) ?s))"
    by (simp add: gameLoop_gameData)
  with idle_collision [OF st'] have "soupCollision (idlePlayer (Suc k)) (Suc k)"
    by simp
  with st' go eq show ?thesis by simp
qed

text \<open>
  C8: a fresh session that receives no jump ends within 50 frames (in fact in one of
  the frames 27 to 30), in the first frame in which \<open>player.y + 40\<close> exceeds the soup
  surface at the player's centre \<open>x = 170\<close>, and its score is then 0.
\<close>

theorem idle_session_ends:
  "\<exists>n. 0 < n \<and> n \<le> 50 \<and> 27 \<le> n \<and> n \<le> 30 \<and>
     (\<forall>k < n. gameState (idleFrames rnds s k) = playing) \<and>
     gameState (idleFrames rnds s n) = gameOver \<and>
     score (idleFrames rnds s n) = 0 \<and>
     frameCount (gameData (idleFrames rnds s n)) = n \<and>
     y (player (gameData (idleFrames rnds s n))) + 40
       > soupSurfaceYAt 170 (real (frameCount (gameData (idleFrames rnds s n)))) \<and>
     (\<forall>k < n. 0 < k \<longrightarrow>
        \<not> y (player (gameData (idleFrames rnds s k))) + 40
          > soupSurfaceYAt 170 (real (frameCount (gameData (idleFrames rnds s k)))))"
proof -
  define n where "n = (LEAST k. gameState (idleFrames rnds s k) \<noteq> playing)"
  have n: "gameState (idleFrames rnds s n) \<noteq> playing"
    unfolding n_def by (rule LeastI [of _ 30]) (rule idle_not_playing_30)
  have n30: "n \<le> 30"
    unfolding n_def by (rule Least_le) (rule idle_not_playing_30)
  have before: "gameState (idleFrames rnds s k) = playing" if "k < n" for k
    using that not_less_Least [of k "\<lambda>k. gameState (idleFrames rnds s k) \<noteq> playing"]
    unfolding n_def by auto
  have "n \<noteq> 0"
  proof
    assume "n = 0"
    with n show False by (simp add: startGame_def)
  qed
  then obtain m where m: "n = Suc m" by (cases n) auto
  from before [of m] m have pm: "gameState (idleFrames rnds s m) = playing" by simp
  from idle_end [OF pm] n n30 m
  have fin: "gameState (idleFrames rnds s n) = gameOver"
    "idleState (idleFrames rnds s n) n" "soupCollision (idlePlayer n) n"
    by simp_all
  have soup: "soupCollision (idlePlayer k) k =
      (y (idlePlayer k) + 40 > soupSurfaceYAt 170 (real k))" for k
    by (simp add: soupCollision_def idlePlayer_def Let_def)
  have earlier: "\<not> y (player (gameData (idleFrames rnds s k))) + 40
          > soupSurfaceYAt 170 (real (frameCount (gameData (idleFrames rnds s k))))"
    if "k < n" "0 < k" for k
  proof -
    from that n30 have "k < 140" by simp
    with before [OF that(1)] that(2) idleFrames_playing [of rnds s k]
    have "idleState (idleFrames rnds s k) k" "\<not> soupCollision (idlePlayer k) k"
      by simp_all
    then show ?thesis
      by (simp add: idleState_def soup)
  qed
  from fin have "score (idleFrames rnds s n) = 0"
    "frameCount (gameData (idleFrames rnds s n)) = n"
    "y (player (gameData (idleFrames rnds s n))) + 40
       > soupSurfaceYAt 170 (real (frameCount (gameData (idleFrames rnds s n))))"
    by (simp_all add: idleState_def soup)
  moreover have "27 \<le> n"
    using fin(3) idle_no_soup_early [of n] by (cases "n \<le> 26") simp_all
  ultimately show ?thesis
    using fin(1) before earlier n30 \<open>n \<noteq> 0\<close>
    by (intro exI [of _ n]) auto
qed

theorem idle_session_ends_witness:
  "\<exists>n. 0 < n \<and> n \<le> 50 \<and>
     gameState (idleFrames (\<lambda>k. rnd0) initialComponent n) = gameOver \<and>
     score (idleFrames (\<lambda>k. rnd0) initialComponent n) = 0"
  using idle_session_ends [of "\<lambda>k. rnd0" initialComponent] by blast

section \<open>What a session preserves\<close>

lemma forkCollision_iff: "forkCollision pl ps = (\<exists>p \<in> set ps. overlaps pl p)"
  by (induction ps) auto

lemma goodPairs_append: "goodPairs c ps \<Longrightarrow> goodPairs c qs \<Longrightarrow> goodPairs c (ps @ qs)"
  by (induction c ps rule: goodPairs.induct) simp_all

lemma goodPairs_generateForks:
  assumes "unitInterval r" and "goodPairs c ps"
  shows "goodPairs c (generateForks r c ps)"
proof (cases "c mod SPAWN_INTERVAL = 0")
  case False
  with assms show ?thesis by (simp add: generateForks_def)
next
  case True
  let ?h = "numAdd (numMul r (numSub (numSub GAME_HEIGHT PIPE_GAP) 200)) 100"
  let ?top = "\<lparr>x = GAME_WIDTH, y = 0, width = PIPE_WIDTH, height = ?h, passed = False\<rparr>"
  let ?bot = "\<lparr>x = GAME_WIDTH, y = numAdd ?h PIPE_GAP, width = PIPE_WIDTH,
               height = numSub (numSub GAME_HEIGHT ?h) PIPE_GAP, passed = False\<rparr>"
  from assms(1) have h: "100 \<le> ?h" "?h \<le> 220"
    using pipeHeight_range [of r] by (simp_all add: unitInterval_def spawn_factor)
  from True have "SPAWN_INTERVAL dvd c"
    by (simp add: dvd_eq_mod_eq_0)
  then have c: "c = 0 + SPAWN_INTERVAL * (c div SPAWN_INTERVAL)"
    by simp
  have j: "c div SPAWN_INTERVAL \<le> c"
    by (rule div_le_dividend)
  have pos: "\<exists>n \<le> c. \<exists>j \<le> c. GAME_WIDTH = GAME_WIDTH - GAME_SPEED * real n \<and>
      c = n + SPAWN_INTERVAL * j"
  proof -
    have "0 \<le> c \<and> c div SPAWN_INTERVAL \<le> c \<and> GAME_WIDTH = GAME_WIDTH - GAME_SPEED * real 0 \<and>
        c = 0 + SPAWN_INTERVAL * (c div SPAWN_INTERVAL)"
      using c j by simp
    then show ?thesis by blast
  qed
  have "goodTop c ?top"
    using h pos by (simp add: goodTop_def) (simp add: game_consts)
  moreover have "goodBottom ?top ?bot"
    by (simp add: goodBottom_def)
  ultimately have "goodPairs c [?top, ?bot]" by simp
  with assms(2) True show ?thesis
    by (simp add: generateForks_def Let_def goodPairs_append)
qed

lemma goodTop_move:
  assumes "goodTop c p"
  shows "goodTop (Suc c) (fst (forkCallback 150 p))"
proof -
  from assms obtain n j where nj: "n \<le> c" "j \<le> c"
    "x p = GAME_WIDTH - GAME_SPEED * real n" "c = n + SPAWN_INTERVAL * j"
    by (auto simp add: goodTop_def)
  have "x p - GAME_SPEED = GAME_WIDTH - GAME_SPEED * real (Suc n)"
    using nj(3) by (simp add: algebra_simps)
  moreover have "Suc c = Suc n + SPAWN_INTERVAL * j" using nj(4) by simp
  ultimately have "Suc n \<le> Suc c \<and> j \<le> Suc c \<and>
      x p - GAME_SPEED = GAME_WIDTH - GAME_SPEED * real (Suc n) \<and> Suc c = Suc n + SPAWN_INTERVAL * j"
    using nj(1,2) by simp
  then have "\<exists>n \<le> Suc c. \<exists>j \<le> Suc c.
      x p - GAME_SPEED = GAME_WIDTH - GAME_SPEED * real n \<and> Suc c = n + SPAWN_INTERVAL * j"
    by blast
  moreover from assms have "y p = 0" "width p = PIPE_WIDTH" "100 \<le> height p" "height p \<le> 220"
    by (simp_all add: goodTop_def)
  ultimately show ?thesis
    unfolding goodTop_def
    by (simp add: forkCallback_passed del: of_nat_Suc) linarith
qed

lemma goodBottom_move:
  "goodBottom p q \<Longrightarrow> goodBottom (fst (forkCallback px p)) (fst (forkCallback px q))"
  by (simp add: goodBottom_def)

lemma goodPairs_updateForks:
  "goodPairs c ps \<Longrightarrow> goodPairs (Suc c) (fst (updateForks 150 ps))"
proof (induction c ps rule: goodPairs.induct)
  case (3 c p q ps)
  then have "width p = width q" "x p = x q"
    by (simp_all add: goodTop_def goodBottom_def)
  with 3 show ?case
    by (simp add: updateForks_Cons_fst goodTop_move goodBottom_move)
qed simp_all

lemma goodPairs_member:
  "goodPairs c ps \<Longrightarrow> p \<in> set ps \<Longrightarrow>
   width p = PIPE_WIDTH \<and> (\<exists>n j. x p = GAME_WIDTH - GAME_SPEED * real n \<and> c = n + SPAWN_INTERVAL * j)"
  by (induction c ps rule: goodPairs.induct) (auto simp add: goodTop_def goodBottom_def)

lemma goodPairs_top:
  "goodPairs c ps \<Longrightarrow> p \<in> set ps \<Longrightarrow> y p = 0 \<Longrightarrow>
   goodTop c p \<and> (\<exists>q \<in> set ps. goodBottom p q)"
proof (induction c ps rule: goodPairs.induct)
  case (3 c t b ps)
  then have "100 \<le> height t" "height t \<le> 220" "y b = numAdd (height t) 280"
    by (simp_all add: goodTop_def goodBottom_def PIPE_GAP_def)
  with bottom_fork_fields(1) [of "height t"] have b: "y b \<noteq> 0"
    by simp
  with 3 show ?case by auto
qed simp_all


lemma sessionInv_startGame: "sessionInv (startGame s)"
  by (simp add: sessionInv_def startGame_def resetGame_def freshGameData_def game_consts)

lemma forkCollision_velocity: "forkCollision (pl\<lparr>velocity := v\<rparr>) ps = forkCollision pl ps"
  by (simp add: forkCollision_iff overlaps_def)

lemma sessionInv_jump: "sessionInv s \<Longrightarrow> sessionInv (jump s)"
  by (simp add: sessionInv_def jump_def Let_def forkCollision_velocity)

lemma updatePlayer_fields:
  "x (updatePlayer pl) = x pl" "width (updatePlayer pl) = width pl"
  "height (updatePlayer pl) = height pl"
  "velocity (updatePlayer pl) = min (velocity pl + GRAVITY) MAX_FALL_SPEED"
  "y (updatePlayer pl) = y pl + min (velocity pl + GRAVITY) MAX_FALL_SPEED"
  by (simp_all add: updatePlayer_def Let_def min_def)

lemma advance_goodPairs:
  assumes "sessionInv s" and "validRnd rn"
  shows "goodPairs (frameCount (gameData s) + 1)
           (generateForks (rndPipe rn) (frameCount (gameData s) + 1) (pipes (gameData s)))"
    and "goodPairs (frameCount (fst (advance rn (gameData s))) + 1)
           (pipes (fst (advance rn (gameData s))))"
proof -
  from assms show a: "goodPairs (frameCount (gameData s) + 1)
           (generateForks (rndPipe rn) (frameCount (gameData s) + 1) (pipes (gameData s)))"
    by (simp add: sessionInv_def Let_def validRnd_def goodPairs_generateForks)
  from assms have "x (player (gameData s)) = 150"
    by (simp add: sessionInv_def Let_def)
  with goodPairs_updateForks [OF a]
  show "goodPairs (frameCount (fst (advance rn (gameData s))) + 1)
           (pipes (fst (advance rn (gameData s))))"
    by (simp add: advance_pipes advance_frameCount)
qed

lemma sessionInv_gameLoop:
  assumes inv: "sessionInv s" and rn: "validRnd rn"
    and nc: "\<not> collisionDetection (fst (advance rn (gameData s)))"
  shows "sessionInv (gameLoop rn s)"
proof -
  let ?g = "fst (advance rn (gameData s))"
  let ?pl = "player (gameData s)"
  from nc have c: "0 \<le> y (player ?g)" "\<not> soupCollision (player ?g) (frameCount ?g)"
    "\<not> forkCollision (player ?g) (pipes ?g)"
    by (auto simp add: collisionDetection_def split: if_splits)
  from inv have pl: "x ?pl = 150" "width ?pl = PLAYER_SIZE" "height ?pl = PLAYER_SIZE"
    "JUMP_FORCE \<le> velocity ?pl"
    by (simp_all add: sessionInv_def Let_def)
  have "y (player ?g) + height (player ?g) \<le>
      soupSurfaceYAt (x (player ?g) + width (player ?g) / 2) (real (frameCount ?g))"
    using c(2) by (simp add: soupCollision_def Let_def)
  also have "\<dots> \<le> 556" by (rule soupSurfaceYAt_upper)
  finally have soup: "y (player ?g) + height (player ?g) \<le> 556" .
  have v: "JUMP_FORCE \<le> velocity (player ?g)"
    using pl(4) by (simp add: advance_player updatePlayer_fields game_consts)
  from pl c soup v advance_goodPairs(2) [OF inv rn] show ?thesis
    by (simp add: sessionInv_def Let_def gameLoop_gameData)
      (simp add: advance_player updatePlayer_fields)
qed

text \<open>The frame in which a fork is scored: where the player then is.\<close>

lemma crossing_fork:
  assumes inv: "sessionInv s"
    and p: "p \<in> set (pipes (gameData s))" "\<not> passed p" "y p = 0"
      "x p - GAME_SPEED + width p < 150"
  shows "x p = 70.7" and "\<exists>j. frameCount (gameData s) + 1 = 187 + SPAWN_INTERVAL * j"
    and "100 \<le> y (player (gameData s))" and "y (player (gameData s)) + 40 \<le> 500"
proof -
  let ?g = "gameData s"
  let ?pl = "player ?g"
  from inv have gp: "goodPairs (frameCount ?g + 1) (pipes ?g)"
    and pl: "x ?pl = 150" "width ?pl = 40" "height ?pl = 40" "0 \<le> y ?pl" "y ?pl + 40 \<le> 556"
    and nf: "\<not> forkCollision ?pl (pipes ?g)"
    by (simp_all add: sessionInv_def Let_def PLAYER_SIZE_def)
  from goodPairs_top [OF gp p(1) p(3)] obtain q where
    top: "goodTop (frameCount ?g + 1) p" and q: "q \<in> set (pipes ?g)" "goodBottom p q"
    by auto
  from top p(2) obtain n j where nj: "x p = 800 - 3.9 * real n"
    "frameCount ?g + 1 = n + SPAWN_INTERVAL * j" and w: "width p = 80" "150 \<le> x p + 80"
    and h: "100 \<le> height p" "height p \<le> 220"
    by (auto simp add: goodTop_def game_consts)
  from nj(1) w p(4) have "real n < 188" "186 < real n"
    by (simp_all add: GAME_SPEED_def)
  then have "n < 188" "186 < n" by simp_all
  then have n: "n = 187" by simp
  with nj(1) show xp: "x p = 70.7" by simp
  from nj(2) n show "\<exists>j. frameCount ?g + 1 = 187 + SPAWN_INTERVAL * j" by auto
  from nf p(1) have "\<not> overlaps ?pl p" by (simp add: forkCollision_iff)
  with xp w pl p(3) h show "100 \<le> y ?pl"
    by (simp add: overlaps_def)
  from nf q(1) have "\<not> overlaps ?pl q" by (simp add: forkCollision_iff)
  moreover from q(2) have qf: "x q = x p" "width q = 80" "y q = numAdd (height p) 280"
    "height q = numSub (numSub 600 (height p)) 280"
    by (simp_all add: goodBottom_def game_consts)
  moreover note bottom_fork_fields(2,4) [OF h]
  ultimately show "y ?pl + 40 \<le> 500"
    using xp pl by (simp add: overlaps_def)
qed

lemma scoring_frame_no_collision:
  assumes inv: "sessionInv s" and rn: "validRnd rn"
    and sc: "snd (advance rn (gameData s)) \<noteq> 0"
  shows "\<not> collisionDetection (fst (advance rn (gameData s)))"
proof -
  let ?g = "gameData s"
  let ?pl = "player ?g"
  let ?fc = "frameCount ?g + 1"
  let ?ps1 = "generateForks (rndPipe rn) ?fc (pipes ?g)"
  let ?g' = "fst (advance rn ?g)"
  from inv have pl: "x ?pl = 150" "width ?pl = 40" "height ?pl = 40"
    "- 10 \<le> velocity ?pl"
    by (simp_all add: sessionInv_def Let_def game_consts)
  from sc pl(1) obtain p where p: "p \<in> set ?ps1" "\<not> passed p" "y p = 0"
    "x p - GAME_SPEED + width p < 150"
    by (auto simp add: advance_inc updateForks_count filter_empty_conv)
  have old: "p \<in> set (pipes ?g)"
  proof (rule ccontr)
    assume "p \<notin> set (pipes ?g)"
    with p(1) have "x p = GAME_WIDTH \<and> width p = PIPE_WIDTH"
      by (auto simp add: generateForks_def Let_def split: if_splits)
    with p(4) show False by (simp add: game_consts)
  qed
  note cr = crossing_fork [OF inv old p(2) p(3) p(4)]
  from cr(2) obtain j where j: "?fc = 187 + SPAWN_INTERVAL * j" by auto
  have y': "y (player ?g') = y ?pl + min (velocity ?pl + GRAVITY) MAX_FALL_SPEED"
    and x': "x (player ?g') = 150" and w': "width (player ?g') = 40"
    and h': "height (player ?g') = 40"
    using pl by (simp_all add: advance_player updatePlayer_fields)
  have vb: "- 9.5 \<le> min (velocity ?pl + GRAVITY) MAX_FALL_SPEED"
    "min (velocity ?pl + GRAVITY) MAX_FALL_SPEED \<le> 12"
    using pl(4) by (simp_all add: game_consts)
  from cr(3) vb y' have ceiling: "\<not> y (player ?g') < 0" by linarith
  have "y (player ?g') + 40 < 524"
    using cr(4) vb y' by linarith
  also have "524 \<le> soupSurfaceYAt (150 + 40 / 2) (real (frameCount ?g'))"
    by (rule soupSurfaceYAt_lower)
  finally have soup: "\<not> soupCollision (player ?g') (frameCount ?g')"
    by (simp add: soupCollision_def Let_def x' w' h')
  have forks: "\<not> overlaps (player ?g') q" if q: "q \<in> set (pipes ?g')" for q
  proof
    assume ov: "overlaps (player ?g') q"
    from q pl(1) obtain q0 where q0: "q0 \<in> set ?ps1" "q = fst (forkCallback 150 q0)"
      by (auto simp add: advance_pipes updateForks_kept)
    from goodPairs_member [OF advance_goodPairs(1) [OF inv rn] q0(1)]
    obtain m k where mk: "width q0 = 80" "x q0 = 800 - 3.9 * real m"
      "?fc = m + SPAWN_INTERVAL * k"
      by (auto simp add: game_consts)
    from ov q0(2) mk(1,2) x' w' have "real m < 187" "155 < real m"
      by (simp_all add: overlaps_def GAME_SPEED_def)
    then have "m < 187" "155 < m" by simp_all
    with mk(3) j show False
      unfolding SPAWN_INTERVAL_def by presburger
  qed
  then have "\<not> forkCollision (player ?g') (pipes ?g')"
    by (simp add: forkCollision_iff)
  with ceiling soup show ?thesis
    by (simp add: collisionDetection_def)
qed


section \<open>High score\<close>

lemma run_Cons: "run s (e # es) = run (handle s e) es"
  by (simp add: run_def)

lemma run_Nil: "run s [] = s"
  by (simp add: run_def)

lemma jump_fields:
  "gameState (jump s) = gameState s" "score (jump s) = score s" "highScore (jump s) = highScore s"
  by (simp_all add: jump_def)

lemma step_playing:
  assumes "sessionInv s" and "gameState s = playing" and "validEvent e"
    and "gameState (handle s e) = playing"
  shows "sessionInv (handle s e) \<and> highScore (handle s e) = highScore s"
proof (cases e)
  case (Frame rn)
  with assms have nc: "\<not> collisionDetection (fst (advance rn (gameData s)))"
    by (auto simp add: gameLoop_gameState split: if_splits)
  with assms Frame show ?thesis
    by (simp add: sessionInv_gameLoop gameLoop_highScore)
qed (use assms in \<open>simp_all add: sessionInv_jump jump_fields\<close>)

lemma step_end:
  assumes "sessionInv s" and "gameState s = playing" and "validEvent e"
    and "gameState (handle s e) = gameOver"
  shows "highScore (handle s e) = max (highScore s) (score (handle s e))"
proof (cases e)
  case (Frame rn)
  with assms have c: "collisionDetection (fst (advance rn (gameData s)))"
    by (auto simp add: gameLoop_gameState split: if_splits)
  with assms Frame scoring_frame_no_collision [of s rn]
  have "snd (advance rn (gameData s)) = 0" by auto
  with assms Frame c show ?thesis
    by (simp add: gameLoop_highScore gameLoop_score)
qed (use assms in \<open>simp_all add: jump_fields\<close>)

lemma session_highScore:
  "sessionInv s \<Longrightarrow> sessionEnds s es \<Longrightarrow>
   gameState (run s es) = gameOver \<and> highScore (run s es) = max (highScore s) (score (run s es))"
proof (induction s es rule: sessionEnds.induct)
  case (1 s)
  then show ?case by simp
next
  case (2 s e)
  then show ?case by (simp add: run_Cons run_Nil step_end)
next
  case (3 s e e' es)
  then have pl: "gameState (handle s e) = playing"
    by (cases es) simp_all
  with 3 step_playing [of s e] show ?case
    by (simp add: run_Cons)
qed

lemma reachable_playing_inv:
  "\<forall>e \<in> set es. validEvent e \<Longrightarrow> gameState (run initialComponent es) = playing \<Longrightarrow>
   sessionInv (run initialComponent es)"
proof (induction es rule: rev_induct)
  case Nil
  then show ?case by (simp add: run_Nil initialComponent_def)
next
  case (snoc e es)
  let ?s = "run initialComponent es"
  have eq: "run initialComponent (es @ [e]) = handle ?s e"
    by (simp add: run_def)
  show ?case
  proof (cases "gameState ?s = playing")
    case True
    with snoc step_playing [of ?s e] show ?thesis
      by (simp add: eq)
  next
    case False
    with snoc.prems(2) show ?thesis
      unfolding eq
      by (cases e) (auto simp add: sessionInv_startGame toMenu_def split: if_splits)
  qed
qed

lemma handle_highScore: "highScore s \<le> highScore (handle s e)"
  by (cases e)
    (simp_all add: startGame_def resetGame_def toMenu_def jump_fields gameLoop_highScore)

lemma run_highScore: "highScore s \<le> highScore (run s es)"
proof (induction es arbitrary: s)
  case Nil
  then show ?case by (simp add: run_Nil)
next
  case (Cons e es)
  have "highScore s \<le> highScore (handle s e)" by (rule handle_highScore)
  also have "\<dots> \<le> highScore (run (handle s e) es)" by (rule Cons.IH)
  finally show ?case by (simp add: run_Cons)
qed

lemma two_sessions:
  assumes "sessionEnds (startGame s) es1"
    and "sessionEnds (startGame (run (startGame s) es1)) es2"
  shows "highScore (run (startGame (run (startGame s) es1)) es2) =
         max (highScore s) (max (score (run (startGame s) es1))
           (score (run (startGame (run (startGame s) es1)) es2)))"
proof -
  let ?s1 = "run (startGame s) es1"
  let ?s2 = "run (startGame ?s1) es2"
  have "highScore ?s1 = max (highScore (startGame s)) (score ?s1)"
    using session_highScore [OF sessionInv_startGame assms(1)] by simp
  moreover have "highScore ?s2 = max (highScore (startGame ?s1)) (score ?s2)"
    using session_highScore [OF sessionInv_startGame assms(2)] by simp
  moreover have "highScore (startGame t) = highScore t" for t
    by (simp add: startGame_def resetGame_def)
  ultimately show ?thesis by (simp add: max.assoc)
qed

lemma collision_frame_score:
  assumes "sessionInv s" and "gameState s = playing" and "validRnd rn"
    and "gameState (gameLoop rn s) = gameOver"
  shows "score (gameLoop rn s) = score s"
proof -
  from assms have c: "collisionDetection (fst (advance rn (gameData s)))"
    by (auto simp add: gameLoop_gameState split: if_splits)
  with assms scoring_frame_no_collision [of s rn]
  have "snd (advance rn (gameData s)) = 0" by auto
  then show ?thesis by (simp add: gameLoop_score)
qed

section \<open>Three sessions, frame by frame\<close>

lemma soupCollision_high: "y pl + height pl \<le> 524 \<Longrightarrow> soupCollision pl fc = False"
  using soupSurfaceYAt_lower [of "x pl + width pl / 2" "real fc"]
  by (simp add: soupCollision_def Let_def)

lemma validRnd_rnd0: "validRnd rnd0"
  by (simp add: validRnd_def unitInterval_def rnd0_def)

lemma updateBubbles_rnd0: "updateBubbles rnd0 fc [] = []"
  by (simp add: updateBubbles_empty validRnd_rnd0)

lemma flap:
  assumes "(k + 1) mod 140 \<noteq> 0" and "v0 - 19 / 2 + 40 \<le> 524"
  shows "handle (handle \<lparr>gameState = playing, score = sc, highScore = hs,
           gameData = \<lparr>player = \<lparr>x = 150, y = v0, width = 40, height = 40, velocity = w0\<rparr>,
             pipes = [], bubbles = [], frameCount = k\<rparr>\<rparr> Space) (Frame rnd0) =
         \<lparr>gameState = (if v0 - 19 / 2 < 0 then gameOver else playing), score = sc,
          highScore = (if v0 - 19 / 2 < 0 then max hs sc else hs),
          gameData = \<lparr>player = \<lparr>x = 150, y = v0 - 19 / 2, width = 40, height = 40,
              velocity = - 19 / 2\<rparr>,
            pipes = [], bubbles = [], frameCount = k + 1\<rparr>\<rparr>"
  using assms
  by (simp add: jump_def gameLoop_def advance_def updatePlayer_def generateForks_def
      updateBubbles_rnd0 collisionDetection_def soupCollision_high endGame_def Let_def
      game_consts)


lemma sessionEnds_flap:
  "sessionEnds s (Space # Frame rnd0 # e # es) =
     (gameState s = playing \<and> sessionEnds (handle (handle s Space) (Frame rnd0)) (e # es))"
  by (auto simp add: validRnd_rnd0 jump_fields)

lemma sessionEnds_flap_last:
  "sessionEnds s [Space, Frame rnd0] =
     (gameState s = playing \<and> gameState (handle (handle s Space) (Frame rnd0)) = gameOver)"
  by (auto simp add: validRnd_rnd0 jump_fields)

lemma run_flap:
  "run s (Space # Frame rnd0 # es) = run (handle (handle s Space) (Frame rnd0)) es"
  by (simp add: run_def)

lemma startGame_record:
  "startGame s = \<lparr>gameState = playing, score = 0, highScore = highScore s,
     gameData = \<lparr>player = \<lparr>x = 150, y = 300, width = 40, height = 40, velocity = 0\<rparr>,
       pipes = [], bubbles = [], frameCount = 0\<rparr>\<rparr>"
  by (simp add: startGame_def resetGame_def freshGameData_def game_consts)

lemma flapSession_run:
  "run (startGame s) flapSession =
     \<lparr>gameState = gameOver, score = 0, highScore = highScore s,
       gameData = \<lparr>player = \<lparr>x = 150, y = - 4, width = 40, height = 40, velocity = - 19 / 2\<rparr>,
         pipes = [], bubbles = [], frameCount = 32\<rparr>\<rparr>"
  unfolding flapSession_def startGame_record
  by (simp add: run_flap flap run_Nil del: handle.simps)

lemma flapSession_ends: "sessionEnds (startGame s) flapSession"
  unfolding flapSession_def startGame_record
  by (simp add: sessionEnds_flap sessionEnds_flap_last flap del: handle.simps sessionEnds.simps)

lemma glideBlock_list:
  "glideBlock = [Space, Frame rnd0, Frame rnd0, Frame rnd0, Frame rnd0, Frame rnd0, Frame rnd0, Frame rnd0, Frame rnd0, Frame rnd0, Frame rnd0, Frame rnd0, Frame rnd0, Frame rnd0, Frame rnd0, Frame rnd0, Frame rnd0, Frame rnd0, Frame rnd0, Frame rnd0, Frame rnd0, Frame rnd0, Frame rnd0, Frame rnd0, Frame rnd0, Frame rnd0, Frame rnd0, Frame rnd0, Frame rnd0, Frame rnd0, Frame rnd0, Frame rnd0, Frame rnd0, Frame rnd0, Frame rnd0, Frame rnd0, Frame rnd0, Frame rnd0, Frame rnd0, Frame rnd0]"
  by (simp add: glideBlock_def eval_nat_numeral)

lemma rndPipe_rnd0: "rndPipe rnd0 = 0"
  by (simp add: rnd0_def)

lemma generateForks_idle: "fc mod 140 \<noteq> 0 \<Longrightarrow> generateForks r fc ps = ps"
  by (simp add: generateForks_def SPAWN_INTERVAL_def)

lemma generateForks_zero:
  "fc mod 140 = 0 \<Longrightarrow>
   generateForks 0 fc ps =
     ps @ [\<lparr>x = 800, y = 0, width = 80, height = 100, passed = False\<rparr>,
           \<lparr>x = 800, y = 380, width = 80, height = 220, passed = False\<rparr>]"
  by (simp add: generateForks_spawn SPAWN_INTERVAL_def numMul_def numAdd_def numSub_def
      roundDouble_def [of 0] roundDouble_100 roundDouble_380 roundDouble_500 roundDouble_220)

lemmas frame_eval =
  jump_def gameLoop_def advance_def updatePlayer_def updateForks_def forkCallback_def
  collisionDetection_def overlaps_def endGame_def Let_def rndPipe_rnd0 updateBubbles_rnd0
  soupCollision_high generateForks_idle generateForks_zero validRnd_rnd0
  GRAVITY_def MAX_FALL_SPEED_def JUMP_FORCE_def GAME_SPEED_def

lemma glide_1:
  "playOn
     \<lparr>gameState = playing, score = 0, highScore = hs,
       gameData = \<lparr>player = \<lparr>x = 150, y = 300, width = 40, height = 40, velocity = 0\<rparr>,
         pipes = [],
         bubbles = [], frameCount = 0\<rparr>\<rparr> glideBlock =
   Some
     \<lparr>gameState = playing, score = 0, highScore = hs,
       gameData = \<lparr>player = \<lparr>x = 150, y = 300, width = 40, height = 40, velocity = 19 / 2\<rparr>,
         pipes = [],
         bubbles = [], frameCount = 39\<rparr>\<rparr>"
  unfolding glideBlock_list
  by (simp add: frame_eval del: One_nat_def)

lemma glide_2:
  "playOn
     \<lparr>gameState = playing, score = 0, highScore = hs,
       gameData = \<lparr>player = \<lparr>x = 150, y = 300, width = 40, height = 40, velocity = 19 / 2\<rparr>,
         pipes = [],
         bubbles = [], frameCount = 39\<rparr>\<rparr> glideBlock =
   Some
     \<lparr>gameState = playing, score = 0, highScore = hs,
       gameData = \<lparr>player = \<lparr>x = 150, y = 300, width = 40, height = 40, velocity = 19 / 2\<rparr>,
         pipes = [],
         bubbles = [], frameCount = 78\<rparr>\<rparr>"
  unfolding glideBlock_list
  by (simp add: frame_eval del: One_nat_def)

lemma glide_3:
  "playOn
     \<lparr>gameState = playing, score = 0, highScore = hs,
       gameData = \<lparr>player = \<lparr>x = 150, y = 300, width = 40, height = 40, velocity = 19 / 2\<rparr>,
         pipes = [],
         bubbles = [], frameCount = 78\<rparr>\<rparr> glideBlock =
   Some
     \<lparr>gameState = playing, score = 0, highScore = hs,
       gameData = \<lparr>player = \<lparr>x = 150, y = 300, width = 40, height = 40, velocity = 19 / 2\<rparr>,
         pipes = [],
         bubbles = [], frameCount = 117\<rparr>\<rparr>"
  unfolding glideBlock_list
  by (simp add: frame_eval del: One_nat_def)

lemma glide_4:
  "playOn
     \<lparr>gameState = playing, score = 0, highScore = hs,
       gameData = \<lparr>player = \<lparr>x = 150, y = 300, width = 40, height = 40, velocity = 19 / 2\<rparr>,
         pipes = [],
         bubbles = [], frameCount = 117\<rparr>\<rparr> glideBlock =
   Some
     \<lparr>gameState = playing, score = 0, highScore = hs,
       gameData = \<lparr>player = \<lparr>x = 150, y = 300, width = 40, height = 40, velocity = 19 / 2\<rparr>,
         pipes = [\<lparr>x = 7337 / 10, y = 0, width = 80, height = 100, passed = False\<rparr>,
                \<lparr>x = 7337 / 10, y = 380, width = 80, height = 220, passed = False\<rparr>],
         bubbles = [], frameCount = 156\<rparr>\<rparr>"
  unfolding glideBlock_list
  by (simp add: frame_eval del: One_nat_def)

lemma glide_5:
  "playOn
     \<lparr>gameState = playing, score = 0, highScore = hs,
       gameData = \<lparr>player = \<lparr>x = 150, y = 300, width = 40, height = 40, velocity = 19 / 2\<rparr>,
         pipes = [\<lparr>x = 7337 / 10, y = 0, width = 80, height = 100, passed = False\<rparr>,
                \<lparr>x = 7337 / 10, y = 380, width = 80, height = 220, passed = False\<rparr>],
         bubbles = [], frameCount = 156\<rparr>\<rparr> glideBlock =
   Some
     \<lparr>gameState = playing, score = 0, highScore = hs,
       gameData = \<lparr>player = \<lparr>x = 150, y = 300, width = 40, height = 40, velocity = 19 / 2\<rparr>,
         pipes = [\<lparr>x = 2908 / 5, y = 0, width = 80, height = 100, passed = False\<rparr>,
                \<lparr>x = 2908 / 5, y = 380, width = 80, height = 220, passed = False\<rparr>],
         bubbles = [], frameCount = 195\<rparr>\<rparr>"
  unfolding glideBlock_list
  by (simp add: frame_eval del: One_nat_def)

lemma glide_6:
  "playOn
     \<lparr>gameState = playing, score = 0, highScore = hs,
       gameData = \<lparr>player = \<lparr>x = 150, y = 300, width = 40, height = 40, velocity = 19 / 2\<rparr>,
         pipes = [\<lparr>x = 2908 / 5, y = 0, width = 80, height = 100, passed = False\<rparr>,
                \<lparr>x = 2908 / 5, y = 380, width = 80, height = 220, passed = False\<rparr>],
         bubbles = [], frameCount = 195\<rparr>\<rparr> glideBlock =
   Some
     \<lparr>gameState = playing, score = 0, highScore = hs,
       gameData = \<lparr>player = \<lparr>x = 150, y = 300, width = 40, height = 40, velocity = 19 / 2\<rparr>,
         pipes = [\<lparr>x = 859 / 2, y = 0, width = 80, height = 100, passed = False\<rparr>,
                \<lparr>x = 859 / 2, y = 380, width = 80, height = 220, passed = False\<rparr>],
         bubbles = [], frameCount = 234\<rparr>\<rparr>"
  unfolding glideBlock_list
  by (simp add: frame_eval del: One_nat_def)

lemma glide_7:
  "playOn
     \<lparr>gameState = playing, score = 0, highScore = hs,
       gameData = \<lparr>player = \<lparr>x = 150, y = 300, width = 40, height = 40, velocity = 19 / 2\<rparr>,
         pipes = [\<lparr>x = 859 / 2, y = 0, width = 80, height = 100, passed = False\<rparr>,
                \<lparr>x = 859 / 2, y = 380, width = 80, height = 220, passed = False\<rparr>],
         bubbles = [], frameCount = 234\<rparr>\<rparr> glideBlock =
   Some
     \<lparr>gameState = playing, score = 0, highScore = hs,
       gameData = \<lparr>player = \<lparr>x = 150, y = 300, width = 40, height = 40, velocity = 19 / 2\<rparr>,
         pipes = [\<lparr>x = 1387 / 5, y = 0, width = 80, height = 100, passed = False\<rparr>,
                \<lparr>x = 1387 / 5, y = 380, width = 80, height = 220, passed = False\<rparr>],
         bubbles = [], frameCount = 273\<rparr>\<rparr>"
  unfolding glideBlock_list
  by (simp add: frame_eval del: One_nat_def)

lemma glide_8:
  "playOn
     \<lparr>gameState = playing, score = 0, highScore = hs,
       gameData = \<lparr>player = \<lparr>x = 150, y = 300, width = 40, height = 40, velocity = 19 / 2\<rparr>,
         pipes = [\<lparr>x = 1387 / 5, y = 0, width = 80, height = 100, passed = False\<rparr>,
                \<lparr>x = 1387 / 5, y = 380, width = 80, height = 220, passed = False\<rparr>],
         bubbles = [], frameCount = 273\<rparr>\<rparr> glideBlock =
   Some
     \<lparr>gameState = playing, score = 0, highScore = hs,
       gameData = \<lparr>player = \<lparr>x = 150, y = 300, width = 40, height = 40, velocity = 19 / 2\<rparr>,
         pipes = [\<lparr>x = 1253 / 10, y = 0, width = 80, height = 100, passed = False\<rparr>,
                \<lparr>x = 1253 / 10, y = 380, width = 80, height = 220, passed = False\<rparr>,
                \<lparr>x = 6713 / 10, y = 0, width = 80, height = 100, passed = False\<rparr>,
                \<lparr>x = 6713 / 10, y = 380, width = 80, height = 220, passed = False\<rparr>],
         bubbles = [], frameCount = 312\<rparr>\<rparr>"
  unfolding glideBlock_list
  by (simp add: frame_eval del: One_nat_def)

lemma glide_9:
  "playOn
     \<lparr>gameState = playing, score = 0, highScore = hs,
       gameData = \<lparr>player = \<lparr>x = 150, y = 300, width = 40, height = 40, velocity = 19 / 2\<rparr>,
         pipes = [\<lparr>x = 1253 / 10, y = 0, width = 80, height = 100, passed = False\<rparr>,
                \<lparr>x = 1253 / 10, y = 380, width = 80, height = 220, passed = False\<rparr>,
                \<lparr>x = 6713 / 10, y = 0, width = 80, height = 100, passed = False\<rparr>,
                \<lparr>x = 6713 / 10, y = 380, width = 80, height = 220, passed = False\<rparr>],
         bubbles = [], frameCount = 312\<rparr>\<rparr> glideBlock =
   Some
     \<lparr>gameState = playing, score = 1, highScore = hs,
       gameData = \<lparr>player = \<lparr>x = 150, y = 300, width = 40, height = 40, velocity = 19 / 2\<rparr>,
         pipes = [\<lparr>x = - 134 / 5, y = 0, width = 80, height = 100, passed = True\<rparr>,
                \<lparr>x = - 134 / 5, y = 380, width = 80, height = 220, passed = False\<rparr>,
                \<lparr>x = 2596 / 5, y = 0, width = 80, height = 100, passed = False\<rparr>,
                \<lparr>x = 2596 / 5, y = 380, width = 80, height = 220, passed = False\<rparr>],
         bubbles = [], frameCount = 351\<rparr>\<rparr>"
  unfolding glideBlock_list
  by (simp add: frame_eval del: One_nat_def)

lemma climb:
  "playOn
     \<lparr>gameState = playing, score = 1, highScore = hs,
       gameData = \<lparr>player = \<lparr>x = 150, y = 300, width = 40, height = 40, velocity = 19 / 2\<rparr>,
         pipes = [\<lparr>x = - 134 / 5, y = 0, width = 80, height = 100, passed = True\<rparr>,
                \<lparr>x = - 134 / 5, y = 380, width = 80, height = 220, passed = False\<rparr>,
                \<lparr>x = 2596 / 5, y = 0, width = 80, height = 100, passed = False\<rparr>,
                \<lparr>x = 2596 / 5, y = 380, width = 80, height = 220, passed = False\<rparr>],
         bubbles = [], frameCount = 351\<rparr>\<rparr> (butlast flapSession) =
   Some
     \<lparr>gameState = playing, score = 1, highScore = hs,
       gameData = \<lparr>player = \<lparr>x = 150, y = 11 / 2, width = 40, height = 40, velocity = - 10\<rparr>,
         pipes = [\<lparr>x = 3983 / 10, y = 0, width = 80, height = 100, passed = False\<rparr>,
                \<lparr>x = 3983 / 10, y = 380, width = 80, height = 220, passed = False\<rparr>],
         bubbles = [], frameCount = 382\<rparr>\<rparr>"
  unfolding flapSession_def
  by (simp add: frame_eval del: One_nat_def)

lemma last_frame:
  "gameLoop rnd0
     \<lparr>gameState = playing, score = 1, highScore = hs,
       gameData = \<lparr>player = \<lparr>x = 150, y = 11 / 2, width = 40, height = 40, velocity = - 10\<rparr>,
         pipes = [\<lparr>x = 3983 / 10, y = 0, width = 80, height = 100, passed = False\<rparr>,
                \<lparr>x = 3983 / 10, y = 380, width = 80, height = 220, passed = False\<rparr>],
         bubbles = [], frameCount = 382\<rparr>\<rparr> =
     \<lparr>gameState = gameOver, score = 1, highScore = max hs 1,
       gameData = \<lparr>player = \<lparr>x = 150, y = - 4, width = 40, height = 40, velocity = - 19 / 2\<rparr>,
         pipes = [\<lparr>x = 1972 / 5, y = 0, width = 80, height = 100, passed = False\<rparr>,
                \<lparr>x = 1972 / 5, y = 380, width = 80, height = 220, passed = False\<rparr>],
         bubbles = [], frameCount = 383\<rparr>\<rparr>"
  by (simp add: frame_eval del: One_nat_def)


lemma playOn_run: "playOn s es = Some t \<Longrightarrow> run s es = t \<and> gameState t = playing"
  by (induction es arbitrary: s) (auto simp add: run_Nil run_Cons split: if_splits)

lemma playOn_valid: "playOn s es = Some t \<Longrightarrow> \<forall>e \<in> set es. validEvent e"
  by (induction es arbitrary: s) (auto split: if_splits)

lemma playOn_append: "playOn s es = Some t \<Longrightarrow> playOn s (es @ es') = playOn t es'"
  by (induction es arbitrary: s) (auto split: if_splits)

lemma playOn_sessionEnds:
  "playOn s es = Some t \<Longrightarrow> sessionEnds s (es @ es') = sessionEnds t es'"
proof (induction es arbitrary: s)
  case Nil
  then show ?case by (simp split: if_splits)
next
  case (Cons e es)
  then have p: "gameState s = playing" "validEvent e" "playOn (handle s e) es = Some t"
    by (simp_all split: if_splits)
  show ?case
  proof (cases "es @ es'")
    case Nil
    with p(3) have "t = handle s e" "gameState (handle s e) = playing"
      by (simp_all split: if_splits)
    with Nil show ?thesis by simp
  next
    case (Cons e' rest)
    have "sessionEnds s (e # es @ es') = sessionEnds (handle s e) (es @ es')"
      using p(1,2) unfolding Cons by simp
    with Cons.IH [OF p(3)] show ?thesis by simp
  qed
qed

lemma scoringPrefix_plays:
  "playOn (startGame s) scoringPrefix =
     Some
       \<lparr>gameState = playing, score = 1, highScore = highScore s,
         gameData = \<lparr>player = \<lparr>x = 150, y = 11 / 2, width = 40, height = 40, velocity = - 10\<rparr>,
           pipes = [\<lparr>x = 3983 / 10, y = 0, width = 80, height = 100, passed = False\<rparr>,
                  \<lparr>x = 3983 / 10, y = 380, width = 80, height = 220, passed = False\<rparr>],
           bubbles = [], frameCount = 382\<rparr>\<rparr>"
proof -
  have c: "scoringPrefix =
      glideBlock @ glideBlock @ glideBlock @ glideBlock @ glideBlock @ glideBlock @
      glideBlock @ glideBlock @ glideBlock @ butlast flapSession"
    by (simp add: scoringPrefix_def eval_nat_numeral)
  show ?thesis
    unfolding c startGame_record
    by (simp only: glide_1 [THEN playOn_append] glide_2 [THEN playOn_append]
        glide_3 [THEN playOn_append] glide_4 [THEN playOn_append] glide_5 [THEN playOn_append]
        glide_6 [THEN playOn_append] glide_7 [THEN playOn_append] glide_8 [THEN playOn_append]
        glide_9 [THEN playOn_append] climb)
qed

lemma scoringSession_run:
  "run (startGame s) scoringSession =
       \<lparr>gameState = gameOver, score = 1, highScore = max (highScore s) 1,
         gameData = \<lparr>player = \<lparr>x = 150, y = - 4, width = 40, height = 40, velocity = - 19 / 2\<rparr>,
           pipes = [\<lparr>x = 1972 / 5, y = 0, width = 80, height = 100, passed = False\<rparr>,
                  \<lparr>x = 1972 / 5, y = 380, width = 80, height = 220, passed = False\<rparr>],
           bubbles = [], frameCount = 383\<rparr>\<rparr>"
proof -
  note p = playOn_run [OF scoringPrefix_plays [of s]]
  have "run (startGame s) scoringSession =
      handle (run (startGame s) scoringPrefix) (Frame rnd0)"
    by (simp add: scoringSession_def run_def)
  then show ?thesis
    using p by (simp add: last_frame del: One_nat_def)
qed

lemma scoringSession_ends: "sessionEnds (startGame s) scoringSession"
proof -
  have "sessionEnds (startGame s) scoringSession =
      sessionEnds
       \<lparr>gameState = playing, score = 1, highScore = highScore s,
         gameData = \<lparr>player = \<lparr>x = 150, y = 11 / 2, width = 40, height = 40, velocity = - 10\<rparr>,
           pipes = [\<lparr>x = 3983 / 10, y = 0, width = 80, height = 100, passed = False\<rparr>,
                  \<lparr>x = 3983 / 10, y = 380, width = 80, height = 220, passed = False\<rparr>],
           bubbles = [], frameCount = 382\<rparr>\<rparr> [Frame rnd0]"
    unfolding scoringSession_def by (rule playOn_sessionEnds) (rule scoringPrefix_plays)
  then show ?thesis
    by (simp add: validRnd_rnd0 last_frame del: One_nat_def)
qed


lemma afterFirst_fields:
  "gameState afterFirst = gameOver" "score afterFirst = 1" "highScore afterFirst = 1"
  by (simp_all add: afterFirst_def scoringSession_run initialComponent_def)

lemma afterSecond_fields:
  "gameState afterSecond = gameOver" "score afterSecond = 0" "highScore afterSecond = 1"
  by (simp_all add: afterSecond_def flapSession_run afterFirst_fields)

lemma afterThird_fields:
  "gameState afterThird = gameOver" "score afterThird = 0" "highScore afterThird = 1"
  by (simp_all add: afterThird_def flapSession_run afterSecond_fields)

text \<open>
  C7 as stated fails in its consequence: the second and third of the three sessions end
  with the scores 0 and 0 one after the other, and the high score after them is 1, the
  score of the first session.
\<close>

theorem later_sessions_counterexample:
  "sessionEnds (startGame initialComponent) scoringSession \<and>
   sessionEnds (startGame afterFirst) flapSession \<and>
   sessionEnds (startGame afterSecond) flapSession \<and>
   score afterFirst = 1 \<and> score afterSecond = 0 \<and> score afterThird = 0 \<and>
   highScore afterThird = 1 \<and>
   highScore afterThird \<noteq> max (score afterSecond) (score afterThird)"
  by (simp add: scoringSession_ends flapSession_ends afterFirst_fields afterSecond_fields
      afterThird_fields)

text \<open>
  C7, amended: whenever a frame takes a reachable playing state to \<open>gameOver\<close>, the high
  score becomes the maximum of the old high score and the session's score at that moment:
  the frame of a collision never scores, so the score \<^verbatim>\<open>endGame\<close> holds is the final
  one. Hence after two sessions in a row the high score is the maximum of the high score
  before them and of their two scores, which for the first two sessions of the component
  is the maximum of the two scores; and no event ever lowers the high score.
\<close>

theorem highScore_is_max:
  "((\<forall>e \<in> set es. validEvent e) \<and> gameState (run initialComponent es) = playing \<and>
    validRnd rn \<and> gameState (gameLoop rn (run initialComponent es)) = gameOver \<longrightarrow>
      score (gameLoop rn (run initialComponent es)) = score (run initialComponent es) \<and>
      highScore (gameLoop rn (run initialComponent es)) =
        max (highScore (run initialComponent es)) (score (gameLoop rn (run initialComponent es)))) \<and>
   (let s1 = run (startGame s) es1; s2 = run (startGame s1) es2
    in sessionEnds (startGame s) es1 \<and> sessionEnds (startGame s1) es2 \<longrightarrow>
         gameState s1 = gameOver \<and> gameState s2 = gameOver \<and>
         highScore s2 = max (highScore s) (max (score s1) (score s2))) \<and>
   (let s1 = run (startGame initialComponent) es1; s2 = run (startGame s1) es2
    in sessionEnds (startGame initialComponent) es1 \<and> sessionEnds (startGame s1) es2 \<longrightarrow>
         highScore s2 = max (score s1) (score s2)) \<and>
   highScore s \<le> highScore (handle s e) \<and> highScore s \<le> highScore (run s es)"
proof -
  have a: "score (gameLoop rn (run initialComponent es)) = score (run initialComponent es) \<and>
      highScore (gameLoop rn (run initialComponent es)) =
        max (highScore (run initialComponent es)) (score (gameLoop rn (run initialComponent es)))"
    if "\<forall>e \<in> set es. validEvent e" "gameState (run initialComponent es) = playing"
      "validRnd rn" "gameState (gameLoop rn (run initialComponent es)) = gameOver"
    using step_end [of "run initialComponent es" "Frame rn"] reachable_playing_inv [of es]
      collision_frame_score [of "run initialComponent es" rn] that
    by simp
  have b: "gameState (run (startGame t) es1) = gameOver \<and>
      gameState (run (startGame (run (startGame t) es1)) es2) = gameOver"
    if "sessionEnds (startGame t) es1" "sessionEnds (startGame (run (startGame t) es1)) es2" for t
    using session_highScore [OF sessionInv_startGame that(1)]
      session_highScore [OF sessionInv_startGame that(2)] by simp
  have c: "highScore initialComponent = 0"
    by (simp add: initialComponent_def)
  show ?thesis
    using a b [of s] two_sessions [of s es1 es2] two_sessions [of initialComponent es1 es2] c
    by (simp add: Let_def handle_highScore run_highScore)
qed

theorem highScore_is_max_witness:
  "validRnd rnd0 \<and>
   gameState (run initialComponent (Space # scoringPrefix)) = playing \<and>
   gameState (gameLoop rnd0 (run initialComponent (Space # scoringPrefix))) = gameOver \<and>
   highScore (run initialComponent (Space # scoringPrefix)) = 0 \<and>
   score (gameLoop rnd0 (run initialComponent (Space # scoringPrefix))) = 1 \<and>
   highScore (gameLoop rnd0 (run initialComponent (Space # scoringPrefix))) = 1 \<and>
   sessionEnds (startGame initialComponent) scoringSession \<and>
   sessionEnds (startGame afterFirst) flapSession \<and>
   score afterFirst = 1 \<and> score afterSecond = 0 \<and> highScore afterSecond = 1"
proof -
  let ?t = "run initialComponent (Space # scoringPrefix)"
  have start: "?t = run (startGame initialComponent) scoringPrefix"
    by (simp add: run_Cons initialComponent_def)
  note pl = playOn_run [OF scoringPrefix_plays [of initialComponent]]
  have v: "\<forall>e \<in> set (Space # scoringPrefix). validEvent e"
    using playOn_valid [OF scoringPrefix_plays [of initialComponent]] by simp
  have p: "gameState ?t = playing"
    unfolding start using pl by simp
  have h0: "highScore ?t = 0"
    unfolding start using pl by (simp add: initialComponent_def)
  have g: "gameState (gameLoop rnd0 ?t) = gameOver" and sc: "score (gameLoop rnd0 ?t) = 1"
    unfolding start using pl by (simp_all add: last_frame del: One_nat_def)
  have e1: "sessionEnds (startGame initialComponent) scoringSession"
    by (rule scoringSession_ends)
  have e2: "sessionEnds (startGame afterFirst) flapSession"
    by (rule flapSession_ends)
  note inst = highScore_is_max [of "Space # scoringPrefix" rnd0 initialComponent
      scoringSession flapSession Space]
  from inst v p g validRnd_rnd0
  have "highScore (gameLoop rnd0 ?t) = max (highScore ?t) (score (gameLoop rnd0 ?t))"
    by simp
  with h0 sc have h1: "highScore (gameLoop rnd0 ?t) = 1" by simp
  from inst e1 e2
  have "highScore afterSecond = max (score afterFirst) (score afterSecond)"
    by (simp add: Let_def afterFirst_def afterSecond_def)
  then have h2: "highScore afterSecond = 1"
    by (simp add: afterFirst_fields(2) afterSecond_fields(2))
  from validRnd_rnd0 p g h0 sc h1 e1 e2 h2 show ?thesis
    by (simp add: afterFirst_fields(2) afterSecond_fields(2))
qed


end
